theory Spec2Isabelle
  imports Main
begin

section \<open>The data model of safebrowsinglist.go\<close>

text \<open>
  \<^verbatim>\<open>ChunkData\<close> is the protocol-buffer message of one chunk. Its declaration is generated
  code that is not part of the file verified here; the source reads it only through
  \<^verbatim>\<open>GetChunkNumber\<close>, \<^verbatim>\<open>GetChunkType\<close>, \<^verbatim>\<open>GetPrefixType\<close> and the field \<^verbatim>\<open>Hashes\<close>.
  The two enumerations are Go integer types, so a decoded message can carry a value that
  is none of the declared constants: the third constructor of each datatype stands for
  those values, and the \<^verbatim>\<open>else\<close> branches of \<^verbatim>\<open>load\<close> are there for them.
  \<^verbatim>\<open>Hashes\<close> is a \<^verbatim>\<open>[]byte\<close>; a \<^typ>\<open>char\<close> is one byte. \<^verbatim>\<open>ChunkNum\<close> is an integer type
  declared outside the file; the conversion \<^verbatim>\<open>ChunkNum(chunk.GetChunkNumber())\<close> is taken to
  keep the number, and no arithmetic is done on chunk numbers.
\<close>

type_synonym ChunkNum = int

datatype ChunkData_ChunkType = CHUNK_TYPE_ADD | CHUNK_TYPE_SUB | CHUNK_TYPE_OTHER int

datatype ChunkData_PrefixType = PREFIX_4B | PREFIX_32B | PREFIX_OTHER int

record ChunkData =
  ChunkNumber :: int
  ChunkType :: ChunkData_ChunkType
  PrefixType :: ChunkData_PrefixType
  Hashes :: string

text \<open>Modelled from the spec: the entry widths \<^verbatim>\<open>PREFIX_4B_SZ\<close> and \<^verbatim>\<open>PREFIX_32B_SZ\<close>, constants
  declared outside the file; the spec gives them as 4 bytes and 32 bytes.\<close>

definition PREFIX_4B_SZ :: nat where
  "PREFIX_4B_SZ = 4"

definition PREFIX_32B_SZ :: nat where
  "PREFIX_32B_SZ = 32"

text \<open>Modelled from the spec: the container \<^verbatim>\<open>HatTrie\<close> with \<^verbatim>\<open>NewTrie\<close>, \<^verbatim>\<open>Set\<close> and \<^verbatim>\<open>Delete\<close>,
  declared outside the file. The spec (4.1) gives its contract: a mutable set of byte
  strings, insert and remove idempotent, remove of an absent key a no-op, and a
  membership test.\<close>

type_synonym HatTrie = "string set"

definition NewTrie :: HatTrie where
  "NewTrie = {}"

definition HatTrie_Set :: "string \<Rightarrow> HatTrie \<Rightarrow> HatTrie" where
  "HatTrie_Set k t = insert k t"

definition HatTrie_Delete :: "string \<Rightarrow> HatTrie \<Rightarrow> HatTrie" where
  "HatTrie_Delete k t = t - {k}"

text \<open>
  The struct \<^verbatim>\<open>SafeBrowsingList\<close>. A Go \<^verbatim>\<open>map[ChunkNum]bool\<close> is used by the source only
  through the presence of its keys, so it is the set of its keys; the outer maps keep
  their keys. The fields \<^verbatim>\<open>Cache\<close>, \<^verbatim>\<open>Logger\<close> and \<^verbatim>\<open>fsLock\<close> are never assigned by the
  functions below: the lock serialises calls (each call is modelled as running alone) and
  what the logger prints is kept in the world, next to the files.
\<close>

record SafeBrowsingList =
  Name :: string
  FileName :: string
  DataRedirects :: "string list"
  DeleteChunks :: "ChunkData_ChunkType \<rightharpoonup> ChunkNum set"
  ChunkRanges :: "ChunkData_ChunkType \<rightharpoonup> string"
  Lookup :: HatTrie
  FullHashRequested :: HatTrie
  FullHashes :: HatTrie
  tmpLookup :: HatTrie
  tmpFullHashes :: HatTrie
  tmpFullHashRequested :: HatTrie

datatype error =
    RequestError
  | UnexpectedResponseCode int
  | ReadChunkError
  | IndexOutOfRangePanic
  | SliceBoundsPanic
  | CreateError
  | DecodeError
  | EncodeError
  | RemoveError
  | RenameError

text \<open>Lines 65 to 81: \<^verbatim>\<open>newSafeBrowsingList\<close>. The fields it does not set are zero values: a
  nil \<^verbatim>\<open>ChunkRanges\<close> map reads as the empty map, and the three temporary tables are nil
  until \<^verbatim>\<open>load\<close> assigns them.\<close>

definition newSafeBrowsingList :: "string \<Rightarrow> string \<Rightarrow> SafeBrowsingList" where
  "newSafeBrowsingList name filename =
     \<lparr>Name = name, FileName = filename, DataRedirects = [],
      DeleteChunks = [CHUNK_TYPE_ADD \<mapsto> {}, CHUNK_TYPE_SUB \<mapsto> {}],
      ChunkRanges = Map.empty,
      Lookup = NewTrie, FullHashRequested = NewTrie, FullHashes = NewTrie,
      tmpLookup = {}, tmpFullHashes = {}, tmpFullHashRequested = {}\<rparr>"

section \<open>updateLookupMap\<close>

text \<open>Lines 318 to 326: the entry width, 0 unless the prefix type is one of the two
  declared ones.\<close>

definition hashlen_of :: "ChunkData \<Rightarrow> nat" where
  "hashlen_of chunk =
     (let hashlen = 0;
          hashlen = (if PrefixType chunk = PREFIX_4B then PREFIX_4B_SZ else hashlen);
          hashlen = (if PrefixType chunk = PREFIX_32B then PREFIX_32B_SZ else hashlen)
      in hashlen)"

text \<open>The slice expression \<^verbatim>\<open>b[i:j]\<close>: Go panics unless \<open>i \<le> j\<close> and \<open>j\<close> is within the slice
  (the bound taken here is its length).\<close>

definition slice :: "string \<Rightarrow> nat \<Rightarrow> nat \<Rightarrow> string option" where
  "slice b i j = (if i \<le> j \<and> j \<le> length b then Some (take (j - i) (drop i b)) else None)"

text \<open>Lines 330 to 355: the two nested switches on one extracted entry. A switch without
  a matching case does nothing.\<close>

definition apply_hash :: "nat \<Rightarrow> ChunkData \<Rightarrow> string \<Rightarrow> SafeBrowsingList \<Rightarrow> SafeBrowsingList" where
  "apply_hash hashlen chunk hash sbl =
     (if hashlen = PREFIX_4B_SZ then
        (case ChunkType chunk of
           CHUNK_TYPE_ADD \<Rightarrow> sbl\<lparr>tmpLookup := HatTrie_Set hash (tmpLookup sbl)\<rparr>
         | CHUNK_TYPE_SUB \<Rightarrow> sbl\<lparr>tmpLookup := HatTrie_Delete hash (tmpLookup sbl)\<rparr>
         | CHUNK_TYPE_OTHER _ \<Rightarrow> sbl)
      else if hashlen = PREFIX_32B_SZ then
        (case ChunkType chunk of
           CHUNK_TYPE_ADD \<Rightarrow> sbl\<lparr>tmpFullHashes := HatTrie_Set hash (tmpFullHashes sbl)\<rparr>
         | CHUNK_TYPE_SUB \<Rightarrow>
             sbl\<lparr>tmpFullHashes := HatTrie_Delete hash (tmpFullHashes sbl),
                 tmpFullHashRequested := HatTrie_Set hash (tmpFullHashRequested sbl)\<rparr>
         | CHUNK_TYPE_OTHER _ \<Rightarrow> sbl)
      else sbl)"

text \<open>The loop of line 328, \<^verbatim>\<open>for i := 0; (i + hashlen) <= hasheslen; i += hashlen\<close>. It need
  not terminate, so it is a partial function: \<open>None\<close> is a call that never returns,
  \<open>Some (Inl e)\<close> a panic, \<open>Some (Inr sbl)\<close> the list after the loop.\<close>

partial_function (option) updateLookupMap_loop ::
  "nat \<Rightarrow> nat \<Rightarrow> ChunkData \<Rightarrow> SafeBrowsingList \<Rightarrow> (error + SafeBrowsingList) option" where
  "updateLookupMap_loop i hashlen chunk sbl =
     (if i + hashlen \<le> length (Hashes chunk) then
        (case slice (Hashes chunk) i (i + hashlen) of
           None \<Rightarrow> Some (Inl SliceBoundsPanic)
         | Some hash \<Rightarrow> updateLookupMap_loop (i + hashlen) hashlen chunk (apply_hash hashlen chunk hash sbl))
      else Some (Inr sbl))"

declare updateLookupMap_loop.simps [code]

definition updateLookupMap :: "SafeBrowsingList \<Rightarrow> ChunkData \<Rightarrow> (error + SafeBrowsingList) option" where
  "updateLookupMap sbl chunk = updateLookupMap_loop 0 (hashlen_of chunk) chunk sbl"

section \<open>The chunk range encoder\<close>

text \<open>Modelled from the spec: \<^verbatim>\<open>buildChunkRanges\<close>, declared outside the file. The spec (4.2):
  the comma-joined sequence of the maximal consecutive runs of the set, in ascending
  order, a run of length 1 rendered as its number and a longer one as \<^verbatim>\<open>start-end\<close>; the
  empty set gives the empty string. Numbers are printed in decimal.\<close>

definition digit_char :: "nat \<Rightarrow> char" where
  "digit_char d = char_of (48 + d)"

fun decimal :: "nat \<Rightarrow> string" where
  "decimal n = (if n < 10 then [digit_char n] else decimal (n div 10) @ [digit_char (n mod 10)])"

declare decimal.simps [simp del]

definition show_num :: "int \<Rightarrow> string" where
  "show_num n = (if n < 0 then ''-'' @ decimal (nat (- n)) else decimal (nat n))"

fun runs :: "int list \<Rightarrow> (int \<times> int) list" where
  "runs [] = []"
| "runs (x # xs) =
     (case runs xs of
        [] \<Rightarrow> [(x, x)]
      | (a, b) # rs \<Rightarrow> if a = x + 1 then (x, b) # rs else (x, x) # (a, b) # rs)"

definition show_run :: "int \<times> int \<Rightarrow> string" where
  "show_run r = (if fst r = snd r then show_num (fst r) else show_num (fst r) @ ''-'' @ show_num (snd r))"

fun join_comma :: "string list \<Rightarrow> string" where
  "join_comma [] = []"
| "join_comma [x] = x"
| "join_comma (x # y # ys) = x @ '','' @ join_comma (y # ys)"

definition buildChunkRanges :: "ChunkNum set \<Rightarrow> string" where
  "buildChunkRanges indexes = join_comma (map show_run (runs (sorted_list_of_set indexes)))"

section \<open>The world outside the list: files, faults, log\<close>

text \<open>
  The persisted log is a gob stream. \<^verbatim>\<open>dec.Decode\<close> yields the next record, \<^verbatim>\<open>io.EOF\<close> at the
  end of the stream, or another error where the stream cannot be decoded: a file is the
  list of what successive \<^verbatim>\<open>Decode\<close> calls meet, and the end of the list is \<^verbatim>\<open>io.EOF\<close>.
  The file system maps a path to the content of the file there. Of what the logger
  prints, an entry keeps the level, a short form of the format string and the integer
  arguments (the counters of \<^verbatim>\<open>load\<close>, which are Go \<^verbatim>\<open>int\<close>s and serve these messages only);
  \<^verbatim>\<open>Debug\<close> messages are left out.
\<close>

datatype gob_item = Rec ChunkData | Garbage

datatype log_entry = Info string "int list" | Warn string

record world =
  fs :: "string \<rightharpoonup> gob_item list"
  logged :: "log_entry list"

text \<open>
  The calls into the operating system that \<^verbatim>\<open>load\<close> checks can fail for reasons outside the
  program. \<open>open_fails\<close>: \<^verbatim>\<open>os.Open\<close> fails with an error other than "does not exist";
  \<open>create_fails\<close>: \<^verbatim>\<open>os.Create\<close> of the temporary file fails; \<open>encode_fails_at = Some n\<close>:
  \<^verbatim>\<open>enc.Encode\<close> fails once \<open>n\<close> records have been written; \<open>remove_fails\<close>, \<open>rename_fails\<close>:
  \<^verbatim>\<open>os.Remove\<close> of the log, \<^verbatim>\<open>os.Rename\<close> of the temporary file fails. The deferred
  \<^verbatim>\<open>os.Remove\<close> of the temporary file, whose error the source drops, is taken to succeed.
\<close>

record os_faults =
  open_fails :: bool
  create_fails :: bool
  encode_fails_at :: "nat option"
  remove_fails :: bool
  rename_fails :: bool

definition Encode :: "os_faults \<Rightarrow> ChunkData list \<Rightarrow> ChunkData \<Rightarrow> error + ChunkData list" where
  "Encode flt written chunk =
     (if encode_fails_at flt = Some (length written) then Inl EncodeError
      else Inr (written @ [chunk]))"

section \<open>load\<close>

text \<open>The receiver and the local variables of \<^verbatim>\<open>load\<close> while the two loops run: \<open>recv\<close> is
  \<^verbatim>\<open>*sbl\<close>, \<open>enc\<close> the records encoded into the temporary file so far, \<open>out\<close> the log.\<close>

record load_state =
  recv :: SafeBrowsingList
  enc :: "ChunkData list"
  addChunkIndexes :: "ChunkNum set"
  subChunkIndexes :: "ChunkNum set"
  addPrefixCount :: int
  subPrefixCount :: int
  addFullHashCount :: int
  subFullHashCount :: int
  deletedChunkCount :: int
  addedChunkCount :: int
  out :: "log_entry list"

text \<open>Lines 191 and 247: \<^verbatim>\<open>_, exists := sbl.DeleteChunks[chunk.GetChunkType()][cast]\<close>. A missing
  outer key gives a nil inner map, in which no key exists.\<close>

definition chunk_deleted :: "SafeBrowsingList \<Rightarrow> ChunkData \<Rightarrow> bool" where
  "chunk_deleted l chunk =
     (case DeleteChunks l (ChunkType chunk) of
        None \<Rightarrow> False
      | Some m \<Rightarrow> ChunkNumber chunk \<in> m)"

text \<open>Lines 195 to 209: the chain of tests on the chunk type and the prefix type, in the
  loop over the existing log. A chunk in one of the four buckets has its number recorded
  in the index set of its type and its entries counted; for any other chunk the last
  \<^verbatim>\<open>else\<close> only warns.\<close>

definition index_existing :: "ChunkData \<Rightarrow> load_state \<Rightarrow> load_state" where
  "index_existing chunk s =
     (let cast = ChunkNumber chunk in
      if ChunkType chunk = CHUNK_TYPE_ADD \<and> PrefixType chunk = PREFIX_4B then
        s\<lparr>addChunkIndexes := insert cast (addChunkIndexes s),
          addPrefixCount := addPrefixCount s + int (length (Hashes chunk) div PREFIX_4B_SZ)\<rparr>
      else if ChunkType chunk = CHUNK_TYPE_ADD \<and> PrefixType chunk = PREFIX_32B then
        s\<lparr>addChunkIndexes := insert cast (addChunkIndexes s),
          addFullHashCount := addFullHashCount s + int (length (Hashes chunk) div PREFIX_32B_SZ)\<rparr>
      else if ChunkType chunk = CHUNK_TYPE_SUB \<and> PrefixType chunk = PREFIX_4B then
        s\<lparr>subChunkIndexes := insert cast (subChunkIndexes s),
          subPrefixCount := subPrefixCount s + int (length (Hashes chunk) div PREFIX_4B_SZ)\<rparr>
      else if ChunkType chunk = CHUNK_TYPE_SUB \<and> PrefixType chunk = PREFIX_32B then
        s\<lparr>subChunkIndexes := insert cast (subChunkIndexes s),
          subFullHashCount := subFullHashCount s + int (length (Hashes chunk) div PREFIX_32B_SZ)\<rparr>
      else s\<lparr>out := out s @ [Warn ''Chunk not decoded properly'']\<rparr>)"

text \<open>Lines 190 to 218: the body of the loop over the existing log, for one decoded chunk.
  The result is \<open>None\<close> when the body never finishes; otherwise the error returned (if any)
  and the state. After the chain of tests every chunk that is not marked for deletion goes
  on to \<^verbatim>\<open>Encode\<close> and \<^verbatim>\<open>updateLookupMap\<close>, also the one that was only warned about.\<close>

definition load_existing_chunk ::
  "os_faults \<Rightarrow> ChunkData \<Rightarrow> load_state \<Rightarrow> (error option \<times> load_state) option" where
  "load_existing_chunk flt chunk s =
     (if chunk_deleted (recv s) chunk then
        Some (None, s\<lparr>deletedChunkCount := deletedChunkCount s + 1\<rparr>)
      else
        (let s = index_existing chunk s
         in case Encode flt (enc s) chunk of
              Inl e \<Rightarrow> Some (Some e, s)
            | Inr written \<Rightarrow>
                (case updateLookupMap (recv s) chunk of
                   None \<Rightarrow> None
                 | Some (Inl e) \<Rightarrow> Some (Some e, s\<lparr>enc := written\<rparr>)
                 | Some (Inr l) \<Rightarrow>
                     Some (None, s\<lparr>enc := written, recv := l,
                                   addedChunkCount := addedChunkCount s + 1\<rparr>))))"

text \<open>Lines 184 to 223: the loop over the existing log. It ends at the end of the stream
  (\<^verbatim>\<open>io.EOF\<close>, no error) or at the first item that does not decode.\<close>

fun load_existing ::
  "os_faults \<Rightarrow> gob_item list \<Rightarrow> load_state \<Rightarrow> (error option \<times> load_state) option" where
  "load_existing flt [] s = Some (None, s)"
| "load_existing flt (Garbage # rest) s = Some (Some DecodeError, s)"
| "load_existing flt (Rec chunk # rest) s =
     (case load_existing_chunk flt chunk s of
        None \<Rightarrow> None
      | Some (Some e, s') \<Rightarrow> Some (Some e, s')
      | Some (None, s') \<Rightarrow> load_existing flt rest s')"

text \<open>Lines 251 to 267: the same chain of tests in the loop over the new chunks. Here the
  last \<^verbatim>\<open>else\<close> warns and continues with the next chunk: \<open>None\<close> is that \<^verbatim>\<open>continue\<close>.\<close>

definition index_new :: "ChunkData \<Rightarrow> load_state \<Rightarrow> load_state option" where
  "index_new chunk s =
     (let cast = ChunkNumber chunk in
      if ChunkType chunk = CHUNK_TYPE_ADD \<and> PrefixType chunk = PREFIX_4B then
        Some (s\<lparr>addChunkIndexes := insert cast (addChunkIndexes s),
          addPrefixCount := addPrefixCount s + int (length (Hashes chunk) div PREFIX_4B_SZ)\<rparr>)
      else if ChunkType chunk = CHUNK_TYPE_ADD \<and> PrefixType chunk = PREFIX_32B then
        Some (s\<lparr>addChunkIndexes := insert cast (addChunkIndexes s),
          addFullHashCount := addFullHashCount s + int (length (Hashes chunk) div PREFIX_32B_SZ)\<rparr>)
      else if ChunkType chunk = CHUNK_TYPE_SUB \<and> PrefixType chunk = PREFIX_4B then
        Some (s\<lparr>subChunkIndexes := insert cast (subChunkIndexes s),
          subPrefixCount := subPrefixCount s + int (length (Hashes chunk) div PREFIX_4B_SZ)\<rparr>)
      else if ChunkType chunk = CHUNK_TYPE_SUB \<and> PrefixType chunk = PREFIX_32B then
        Some (s\<lparr>subChunkIndexes := insert cast (subChunkIndexes s),
          subFullHashCount := subFullHashCount s + int (length (Hashes chunk) div PREFIX_32B_SZ)\<rparr>)
      else None)"

text \<open>Lines 246 to 275: the body of the loop over the new chunks.\<close>

definition load_new_chunk ::
  "os_faults \<Rightarrow> ChunkData \<Rightarrow> load_state \<Rightarrow> (error option \<times> load_state) option" where
  "load_new_chunk flt chunk s =
     (if chunk_deleted (recv s) chunk then
        Some (None, s\<lparr>addedChunkCount := addedChunkCount s - 1\<rparr>)
      else
        (case index_new chunk s of
           None \<Rightarrow>
             Some (None, s\<lparr>out := out s @ [Warn ''Unknow chunk type''],
                           addedChunkCount := addedChunkCount s - 1\<rparr>)
         | Some s \<Rightarrow>
             (case Encode flt (enc s) chunk of
                Inl e \<Rightarrow> Some (Some e, s)
              | Inr written \<Rightarrow>
                  (case updateLookupMap (recv s) chunk of
                     None \<Rightarrow> None
                   | Some (Inl e) \<Rightarrow> Some (Some e, s\<lparr>enc := written\<rparr>)
                   | Some (Inr l) \<Rightarrow> Some (None, s\<lparr>enc := written, recv := l\<rparr>)))))"

fun load_new ::
  "os_faults \<Rightarrow> ChunkData list \<Rightarrow> load_state \<Rightarrow> (error option \<times> load_state) option" where
  "load_new flt [] s = Some (None, s)"
| "load_new flt (chunk # rest) s =
     (case load_new_chunk flt chunk s of
        None \<Rightarrow> None
      | Some (Some e, s') \<Rightarrow> Some (Some e, s')
      | Some (None, s') \<Rightarrow> load_new flt rest s')"

text \<open>Lines 158 to 179: the state in which the first loop starts. The three temporary
  tables are fresh tries.\<close>

definition load_start :: "SafeBrowsingList \<Rightarrow> log_entry list \<Rightarrow> load_state" where
  "load_start l msgs =
     \<lparr>recv = l\<lparr>tmpLookup := NewTrie, tmpFullHashes := NewTrie, tmpFullHashRequested := NewTrie\<rparr>,
      enc = [], addChunkIndexes = {}, subChunkIndexes = {},
      addPrefixCount = 0, subPrefixCount = 0, addFullHashCount = 0, subFullHashCount = 0,
      deletedChunkCount = 0, addedChunkCount = 0,
      out = msgs @ [Info ''Load existing data from files'' []]\<rparr>"

text \<open>Lines 224 to 243: the message about the first loop, and the counters reset.\<close>

definition load_between :: "ChunkData list \<Rightarrow> load_state \<Rightarrow> load_state" where
  "load_between newChunks s =
     s\<lparr>out := out s @
          [Info ''Loaded existing chunks''
             [int (card (addChunkIndexes s)), int (card (subChunkIndexes s)),
              addPrefixCount s, subPrefixCount s, addFullHashCount s, subFullHashCount s,
              deletedChunkCount s, addedChunkCount s],
           Info ''Add updated chunks'' []],
       addPrefixCount := 0, subPrefixCount := 0, addFullHashCount := 0, subFullHashCount := 0,
       deletedChunkCount := 0, addedChunkCount := int (length newChunks)\<rparr>"

text \<open>The deferred \<^verbatim>\<open>close_tmp_file\<close>: the temporary file is removed on every return that
  follows its creation.\<close>

definition load_leave ::
  "(string \<rightharpoonup> gob_item list) \<Rightarrow> load_state \<Rightarrow> error option \<Rightarrow> error option \<times> world \<times> SafeBrowsingList" where
  "load_leave files s e =
     (e, \<lparr>fs = files(FileName (recv s) @ ''.tmp'' := None), logged = out s\<rparr>, recv s)"

text \<open>Lines 279 to 314: the three live tables are assigned first; then the old log is
  removed (when it had been opened) and the temporary file renamed to it; then the chunk
  ranges are rebuilt and the pending deletions emptied. \<open>opened\<close> is \<^verbatim>\<open>f != nil\<close>.\<close>

definition load_commit ::
  "os_faults \<Rightarrow> bool \<Rightarrow> (string \<rightharpoonup> gob_item list) \<Rightarrow> load_state \<Rightarrow>
     error option \<times> world \<times> SafeBrowsingList" where
  "load_commit flt opened files s =
     (let l = recv s;
          l = l\<lparr>Lookup := tmpLookup l\<rparr>;
          l = l\<lparr>FullHashes := tmpFullHashes l\<rparr>;
          l = l\<lparr>FullHashRequested := tmpFullHashRequested l\<rparr>;
          s = s\<lparr>recv := l,
                out := out s @ [Info ''Replacing FullHashes and Lookup lists'' [],
                                Info ''Replaced FullHashes and Lookup lists'' []]\<rparr>
      in if opened \<and> remove_fails flt then load_leave files s (Some RemoveError)
         else
          (let files = (if opened then files(FileName l := None) else files)
           in if rename_fails flt then load_leave files s (Some RenameError)
              else
               (let files = files(FileName l \<mapsto> map Rec (enc s));
                    l = l\<lparr>ChunkRanges :=
                            [CHUNK_TYPE_ADD \<mapsto> buildChunkRanges (addChunkIndexes s),
                             CHUNK_TYPE_SUB \<mapsto> buildChunkRanges (subChunkIndexes s)]\<rparr>;
                    l = l\<lparr>DeleteChunks := Map.empty\<rparr>;
                    s = s\<lparr>recv := l,
                          out := out s @
                            [Info ''Update added and deleted chunks''
                               [addedChunkCount s, deletedChunkCount s, addPrefixCount s,
                                subPrefixCount s, addFullHashCount s, subFullHashCount s]]\<rparr>
                in load_leave files s None)))"

text \<open>Lines 181 to 277: the two loops, one after the other. \<open>f\<close> is the content of the
  opened log, \<open>None\<close> when there is no decoder (\<^verbatim>\<open>dec == nil\<close>).\<close>

definition load_loops ::
  "os_faults \<Rightarrow> gob_item list option \<Rightarrow> ChunkData list \<Rightarrow> load_state \<Rightarrow>
     (error option \<times> load_state) option" where
  "load_loops flt f newChunks s =
     (case (case f of None \<Rightarrow> Some (None, s) | Some items \<Rightarrow> load_existing flt items s) of
        None \<Rightarrow> None
      | Some (Some e, s) \<Rightarrow> Some (Some e, s)
      | Some (None, s) \<Rightarrow> load_new flt newChunks (load_between newChunks s))"

text \<open>Lines 129 to 143: \<^verbatim>\<open>os.Open\<close> gives no file when the log is absent, and also when it
  fails otherwise; that case is logged and the code goes on without a decoder.\<close>

definition load_open ::
  "os_faults \<Rightarrow> world \<Rightarrow> SafeBrowsingList \<Rightarrow> gob_item list option \<times> log_entry list" where
  "load_open flt w l =
     (let msgs = logged w @ [Info ''Reloading'' []]
      in if open_fails flt
         then (None, msgs @ [Warn ''Error opening data file for reading, assuming empty''])
         else (fs w (FileName l), msgs))"

text \<open>
  \<^verbatim>\<open>load\<close>, lines 121 to 315. The result is \<open>None\<close> when the call never returns; otherwise
  the error returned (if any), the world and the list on return.
\<close>

definition load ::
  "os_faults \<Rightarrow> world \<Rightarrow> SafeBrowsingList \<Rightarrow> ChunkData list \<Rightarrow>
     (error option \<times> world \<times> SafeBrowsingList) option" where
  "load flt w l newChunks =
     (let (f, msgs) = load_open flt w l
      in if create_fails flt then Some (Some CreateError, w\<lparr>logged := msgs\<rparr>, l)
         else
          (let files = (fs w)(FileName l @ ''.tmp'' \<mapsto> [])
           in case load_loops flt f newChunks (load_start l msgs) of
                None \<Rightarrow> None
              | Some (Some e, s) \<Rightarrow> Some (load_leave files s (Some e))
              | Some (None, s) \<Rightarrow> Some (load_commit flt (f \<noteq> None) files s)))"

section \<open>loadDataFromRedirectLists\<close>

text \<open>
  \<^verbatim>\<open>request\<close> and \<^verbatim>\<open>ReadChunk\<close> are declared outside the file and reach the network, so what
  they give for a URL is a parameter: the request fails, or it answers with a status code
  and a body from which the \<^verbatim>\<open>ReadChunk\<close> loop either reads a list of chunks or fails.
  \<^verbatim>\<open>ReadChunk\<close> is taken to give a chunk (not a nil pointer) whenever it gives no error, so
  the test of line 115 is on a chunk that is there; indexing an empty \<^verbatim>\<open>newChunks\<close> at 0
  panics.
\<close>

datatype fetch_outcome = RequestFailed | Response int "ChunkData list option"

fun fetch_all ::
  "(string \<Rightarrow> fetch_outcome) \<Rightarrow> string list \<Rightarrow> ChunkData list \<Rightarrow> error + ChunkData list" where
  "fetch_all request [] newChunks = Inr newChunks"
| "fetch_all request (url # urls) newChunks =
     (case request url of
        RequestFailed \<Rightarrow> Inl RequestError
      | Response code body \<Rightarrow>
          if code \<noteq> 200 then Inl (UnexpectedResponseCode code)
          else (case body of
                  None \<Rightarrow> Inl ReadChunkError
                | Some chunks \<Rightarrow> fetch_all request urls (newChunks @ chunks)))"

definition loadDataFromRedirectLists ::
  "(string \<Rightarrow> fetch_outcome) \<Rightarrow> os_faults \<Rightarrow> world \<Rightarrow> SafeBrowsingList \<Rightarrow>
     (error option \<times> world \<times> SafeBrowsingList) option" where
  "loadDataFromRedirectLists request flt w l =
     (if length (DataRedirects l) < 1 then
        Some (None, w\<lparr>logged := logged w @ [Info ''No pending updates available'' []]\<rparr>, l)
      else
        (case fetch_all request (DataRedirects l) [] of
           Inl e \<Rightarrow> Some (Some e, w, l)
         | Inr newChunks \<Rightarrow>
             (case newChunks of
                [] \<Rightarrow> Some (Some IndexOutOfRangePanic, w, l)
              | _ # _ \<Rightarrow> load flt w l newChunks)))"

section \<open>What the claims speak of\<close>

text \<open>The fixed-width entries of a hash blob, as the claims count them: entry \<open>k\<close> is the
  \<open>w\<close> bytes from offset \<open>k * w\<close>, for \<open>k\<close> below \<open>length b div w\<close>.\<close>

definition entries :: "nat \<Rightarrow> string \<Rightarrow> string list" where
  "entries w b = map (\<lambda>k. take w (drop (k * w) b)) [0..<length b div w]"

text \<open>The lookup-update rule of the spec (4.3), for one entry, on the three tables
  (prefixes, full hashes, resolved hashes); a record that is in none of the four buckets
  has no effect.\<close>

type_synonym tables = "HatTrie \<times> HatTrie \<times> HatTrie"

fun lookup_update_rule ::
  "ChunkData_ChunkType \<Rightarrow> ChunkData_PrefixType \<Rightarrow> string \<Rightarrow> tables \<Rightarrow> tables" where
  "lookup_update_rule CHUNK_TYPE_ADD PREFIX_4B h (p, f, r) = (insert h p, f, r)"
| "lookup_update_rule CHUNK_TYPE_SUB PREFIX_4B h (p, f, r) = (p - {h}, f, r)"
| "lookup_update_rule CHUNK_TYPE_ADD PREFIX_32B h (p, f, r) = (p, insert h f, r)"
| "lookup_update_rule CHUNK_TYPE_SUB PREFIX_32B h (p, f, r) = (p, f - {h}, insert h r)"
| "lookup_update_rule _ _ h (p, f, r) = (p, f, r)"

definition chunk_effect :: "ChunkData \<Rightarrow> tables \<Rightarrow> tables" where
  "chunk_effect chunk t =
     fold (lookup_update_rule (ChunkType chunk) (PrefixType chunk))
       (entries (hashlen_of chunk) (Hashes chunk)) t"

definition tables_of :: "SafeBrowsingList \<Rightarrow> tables" where
  "tables_of l = (tmpLookup l, tmpFullHashes l, tmpFullHashRequested l)"

definition with_tables :: "SafeBrowsingList \<Rightarrow> tables \<Rightarrow> SafeBrowsingList" where
  "with_tables l t =
     l\<lparr>tmpLookup := fst t, tmpFullHashes := fst (snd t), tmpFullHashRequested := snd (snd t)\<rparr>"

definition live_tables :: "SafeBrowsingList \<Rightarrow> tables" where
  "live_tables l = (Lookup l, FullHashes l, FullHashRequested l)"

definition known_width :: "ChunkData \<Rightarrow> bool" where
  "known_width chunk = (PrefixType chunk = PREFIX_4B \<or> PrefixType chunk = PREFIX_32B)"

definition recognized :: "ChunkData \<Rightarrow> bool" where
  "recognized chunk =
     ((ChunkType chunk = CHUNK_TYPE_ADD \<or> ChunkType chunk = CHUNK_TYPE_SUB) \<and> known_width chunk)"

text \<open>The records of a log, and the chunk numbers of one type among a list of records.\<close>

fun records :: "gob_item list \<Rightarrow> ChunkData list" where
  "records [] = []"
| "records (Rec chunk # rest) = chunk # records rest"
| "records (Garbage # rest) = records rest"

definition numbers_of :: "ChunkData_ChunkType \<Rightarrow> ChunkData list \<Rightarrow> ChunkNum set" where
  "numbers_of T chunks = set (map ChunkNumber (filter (\<lambda>c. ChunkType c = T) chunks))"

text \<open>The records that \<^verbatim>\<open>load\<close> has to read: those of the opened log.\<close>

definition existing_records :: "gob_item list option \<Rightarrow> ChunkData list" where
  "existing_records f = (case f of None \<Rightarrow> [] | Some items \<Rightarrow> records items)"

text \<open>The records that a merge keeps, in the order in which it meets them: from the
  existing log every record that is not marked for deletion, from the new chunks every
  record that is not marked for deletion and is in one of the four buckets.\<close>

definition kept_chunks ::
  "SafeBrowsingList \<Rightarrow> gob_item list option \<Rightarrow> ChunkData list \<Rightarrow> ChunkData list" where
  "kept_chunks l f newChunks =
     filter (\<lambda>c. \<not> chunk_deleted l c) (existing_records f) @
     filter (\<lambda>c. \<not> chunk_deleted l c \<and> recognized c) newChunks"

text \<open>Two lists that differ at most in the three temporary tables.\<close>

definition same_frame :: "SafeBrowsingList \<Rightarrow> SafeBrowsingList \<Rightarrow> bool" where
  "same_frame l l' \<longleftrightarrow> l' = with_tables l (tables_of l')"

text \<open>A record whose number is in neither index set of its type and which has not been
  written to the temporary file.\<close>

definition untouched_by :: "ChunkData \<Rightarrow> load_state \<Rightarrow> bool" where
  "untouched_by d s \<longleftrightarrow>
     (ChunkType d = CHUNK_TYPE_ADD \<longrightarrow> ChunkNumber d \<notin> addChunkIndexes s) \<and>
     (ChunkType d = CHUNK_TYPE_SUB \<longrightarrow> ChunkNumber d \<notin> subChunkIndexes s) \<and>
     d \<notin> set (enc s)"

section \<open>Concrete inputs\<close>

text \<open>A list as \<^verbatim>\<open>newSafeBrowsingList\<close> makes it, a world without files, an operating system
  that does not fail, and a few chunks: two 4-byte prefixes to add, a 32-byte hash to
  retract and to add, a chunk of an undeclared prefix type, a chunk of an undeclared chunk
  type, and a chunk whose blob ends in a partial entry.\<close>

definition new_list :: SafeBrowsingList where
  "new_list = newSafeBrowsingList ''malware'' ''malware.dat''"

definition empty_world :: world where
  "empty_world = \<lparr>fs = Map.empty, logged = []\<rparr>"

definition no_faults :: os_faults where
  "no_faults = \<lparr>open_fails = False, create_fails = False, encode_fails_at = None,
                 remove_fails = False, rename_fails = False\<rparr>"

definition hash32 :: string where
  "hash32 = ''0123456789abcdef0123456789abcdef''"

definition chunk_add_prefix :: ChunkData where
  "chunk_add_prefix = \<lparr>ChunkNumber = 1, ChunkType = CHUNK_TYPE_ADD, PrefixType = PREFIX_4B,
                        Hashes = ''abcdefgh''\<rparr>"

definition chunk_sub_full :: ChunkData where
  "chunk_sub_full = \<lparr>ChunkNumber = 2, ChunkType = CHUNK_TYPE_SUB, PrefixType = PREFIX_32B,
                      Hashes = hash32\<rparr>"

definition chunk_add_full :: ChunkData where
  "chunk_add_full = \<lparr>ChunkNumber = 3, ChunkType = CHUNK_TYPE_ADD, PrefixType = PREFIX_32B,
                      Hashes = hash32\<rparr>"

definition chunk_odd_prefix :: ChunkData where
  "chunk_odd_prefix = \<lparr>ChunkNumber = 7, ChunkType = CHUNK_TYPE_ADD, PrefixType = PREFIX_OTHER 2,
                        Hashes = ''abcdefgh''\<rparr>"

definition chunk_odd_type :: ChunkData where
  "chunk_odd_type = \<lparr>ChunkNumber = 8, ChunkType = CHUNK_TYPE_OTHER 2, PrefixType = PREFIX_4B,
                      Hashes = ''abcdefgh''\<rparr>"

definition chunk_ragged :: ChunkData where
  "chunk_ragged = \<lparr>ChunkNumber = 9, ChunkType = CHUNK_TYPE_ADD, PrefixType = PREFIX_4B,
                    Hashes = ''abcdefghij''\<rparr>"

text \<open>The world and the list after scenario A of the spec: the log holds the one ADD chunk of
  two prefixes, and the list is what a successful \<^verbatim>\<open>load\<close> of that chunk left.\<close>

definition merged_world :: world where
  "merged_world = empty_world\<lparr>fs := [''malware.dat'' \<mapsto> [Rec chunk_add_prefix]]\<rparr>"

definition merged_list :: SafeBrowsingList where
  "merged_list =
     new_list\<lparr>DeleteChunks := Map.empty,
              ChunkRanges := [CHUNK_TYPE_ADD \<mapsto> ''1'', CHUNK_TYPE_SUB \<mapsto> []],
              Lookup := {''abcd'', ''efgh''}, tmpLookup := {''abcd'', ''efgh''}\<rparr>"

text \<open>What a call of \<^verbatim>\<open>load\<close> or \<^verbatim>\<open>loadDataFromRedirectLists\<close> returned: the error, the
  content of a file, the list.\<close>

definition error_after ::
  "(error option \<times> world \<times> SafeBrowsingList) option \<Rightarrow> error option option" where
  "error_after r = map_option fst r"

definition file_after ::
  "(error option \<times> world \<times> SafeBrowsingList) option \<Rightarrow> string \<Rightarrow> gob_item list option" where
  "file_after r path = (case r of None \<Rightarrow> None | Some (e, w, l) \<Rightarrow> fs w path)"

definition list_after ::
  "(error option \<times> world \<times> SafeBrowsingList) option \<Rightarrow> SafeBrowsingList option" where
  "list_after r = map_option (\<lambda>x. snd (snd x)) r"

definition ranges_after ::
  "(error option \<times> world \<times> SafeBrowsingList) option \<Rightarrow> ChunkData_ChunkType \<Rightarrow> string option" where
  "ranges_after r T = (case r of None \<Rightarrow> None | Some (e, w, l) \<Rightarrow> ChunkRanges l T)"

definition deletions_after ::
  "(error option \<times> world \<times> SafeBrowsingList) option \<Rightarrow> ChunkData_ChunkType \<Rightarrow> ChunkNum set option" where
  "deletions_after r T = (case r of None \<Rightarrow> None | Some (e, w, l) \<Rightarrow> DeleteChunks l T)"

section \<open>updateLookupMap: entries, termination, closed form\<close>

lemma entries_short: "length b < w \<Longrightarrow> entries w b = []"
  by (simp add: entries_def)

lemma entries_step:
  assumes "0 < w" "w \<le> length b"
  shows "entries w b = take w b # entries w (drop w b)"
proof -
  have d: "length b div w = Suc ((length b - w) div w)"
    using assms by (simp add: le_div_geq)
  have "map (\<lambda>k. take w (drop (k * w) b)) [0..<Suc ((length b - w) div w)]
        = take w b # map (\<lambda>k. take w (drop (k * w) (drop w b))) [0..<(length b - w) div w]"
    by (simp add: upt_conv_Cons map_Suc_upt [symmetric] del: upt_Suc add: add.commute)
  then show ?thesis
    by (simp add: entries_def d)
qed

lemma length_entries: "length (entries w b) = length b div w"
  by (simp add: entries_def)

lemma loop_zero_aux:
  assumes "updateLookupMap_loop i h c l = Some y"
  shows "\<not> (h = 0 \<and> i \<le> length (Hashes c))"
proof (rule updateLookupMap_loop.raw_induct
    [where P = "\<lambda>i h c l y. \<not> (h = 0 \<and> i \<le> length (Hashes c))", OF _ assms])
  fix loop i h c l y
  assume IH: "\<And>i h c l y. loop i h c l = Some y \<Longrightarrow> \<not> (h = 0 \<and> i \<le> length (Hashes c))"
    and eq: "(if i + h \<le> length (Hashes c)
      then case slice (Hashes c) i (i + h) of
           None \<Rightarrow> Some (Inl SliceBoundsPanic)
           | Some hash \<Rightarrow> loop (i + h) h c (apply_hash h c hash l)
      else Some (Inr l)) = Some y"
  show "\<not> (h = 0 \<and> i \<le> length (Hashes c))"
  proof
    assume a: "h = 0 \<and> i \<le> length (Hashes c)"
    from eq a have "loop i 0 c (apply_hash 0 c [] l) = Some y"
      by (simp add: slice_def)
    from IH [OF this] a show False by simp
  qed
qed

lemma loop_zero: "i \<le> length (Hashes c) \<Longrightarrow> updateLookupMap_loop i 0 c l = None"
  using loop_zero_aux [of i 0 c l] by (cases "updateLookupMap_loop i 0 c l") auto

lemma tables_with [simp]: "tables_of (with_tables l t) = t"
  by (simp add: tables_of_def with_tables_def)

lemma with_with [simp]: "with_tables (with_tables l t) u = with_tables l u"
  by (simp add: with_tables_def)

lemma with_same [simp]: "with_tables l (tables_of l) = l"
  by (simp add: with_tables_def tables_of_def)

lemma apply_hash_rule:
  "0 < hashlen_of c \<Longrightarrow>
   apply_hash (hashlen_of c) c h l =
     with_tables l (lookup_update_rule (ChunkType c) (PrefixType c) h (tables_of l))"
  by (cases "ChunkType c"; cases "PrefixType c")
     (simp_all add: apply_hash_def hashlen_of_def PREFIX_4B_SZ_def PREFIX_32B_SZ_def
        with_tables_def tables_of_def HatTrie_Set_def HatTrie_Delete_def)

lemma loop_closed:
  assumes w: "0 < hashlen_of c"
  shows "updateLookupMap_loop i (hashlen_of c) c l =
     Some (Inr (with_tables l
       (fold (lookup_update_rule (ChunkType c) (PrefixType c))
          (entries (hashlen_of c) (drop i (Hashes c))) (tables_of l))))"
proof (induction "length (Hashes c) - i" arbitrary: i l rule: less_induct)
  case less
  let ?w = "hashlen_of c"
  show ?case
  proof (cases "i + ?w \<le> length (Hashes c)")
    case True
    then have s: "slice (Hashes c) i (i + ?w) = Some (take ?w (drop i (Hashes c)))"
      by (simp add: slice_def)
    have e: "entries ?w (drop i (Hashes c)) =
        take ?w (drop i (Hashes c)) # entries ?w (drop (i + ?w) (Hashes c))"
      using True w by (simp add: entries_step add.commute)
    have "length (Hashes c) - (i + ?w) < length (Hashes c) - i"
      using True w by simp
    from less [OF this] True s e w show ?thesis
      by (subst updateLookupMap_loop.simps) (simp add: apply_hash_rule)
  next
    case False
    then have "length (drop i (Hashes c)) < ?w"
      using w by simp
    then have "entries ?w (drop i (Hashes c)) = []"
      by (rule entries_short)
    with False show ?thesis
      by (subst updateLookupMap_loop.simps) simp
  qed
qed

lemma hashlen_known: "known_width c \<Longrightarrow> 0 < hashlen_of c"
  by (auto simp: known_width_def hashlen_of_def PREFIX_4B_SZ_def PREFIX_32B_SZ_def)

lemma hashlen_unknown: "\<not> known_width c \<Longrightarrow> hashlen_of c = 0"
  by (auto simp: known_width_def hashlen_of_def PREFIX_4B_SZ_def PREFIX_32B_SZ_def)

lemma updateLookupMap_known:
  "known_width c \<Longrightarrow>
   updateLookupMap l c = Some (Inr (with_tables l (chunk_effect c (tables_of l))))"
  by (simp add: updateLookupMap_def loop_closed hashlen_known chunk_effect_def)

lemma updateLookupMap_unknown: "\<not> known_width c \<Longrightarrow> updateLookupMap l c = None"
  by (simp add: updateLookupMap_def hashlen_unknown loop_zero)

section \<open>The effect of one chunk on the tables\<close>

lemma fold_add4: "fold (lookup_update_rule CHUNK_TYPE_ADD PREFIX_4B) es (p, f, r) = (p \<union> set es, f, r)"
  by (induction es arbitrary: p) auto

lemma fold_sub4: "fold (lookup_update_rule CHUNK_TYPE_SUB PREFIX_4B) es (p, f, r) = (p - set es, f, r)"
  by (induction es arbitrary: p) auto

lemma fold_add32: "fold (lookup_update_rule CHUNK_TYPE_ADD PREFIX_32B) es (p, f, r) = (p, f \<union> set es, r)"
  by (induction es arbitrary: f) auto

lemma fold_sub32:
  "fold (lookup_update_rule CHUNK_TYPE_SUB PREFIX_32B) es (p, f, r) = (p, f - set es, r \<union> set es)"
  by (induction es arbitrary: f r) auto

lemma fold_other: "\<not> ((T = CHUNK_TYPE_ADD \<or> T = CHUNK_TYPE_SUB) \<and> (P = PREFIX_4B \<or> P = PREFIX_32B)) \<Longrightarrow>
   fold (lookup_update_rule T P) es t = t"
  by (induction es) (cases T; cases P; cases t; simp)+

lemma chunk_effect_cases:
  "chunk_effect c (p, f, r) =
    (let es = set (entries (hashlen_of c) (Hashes c)) in
     if ChunkType c = CHUNK_TYPE_ADD \<and> PrefixType c = PREFIX_4B then (p \<union> es, f, r)
     else if ChunkType c = CHUNK_TYPE_SUB \<and> PrefixType c = PREFIX_4B then (p - es, f, r)
     else if ChunkType c = CHUNK_TYPE_ADD \<and> PrefixType c = PREFIX_32B then (p, f \<union> es, r)
     else if ChunkType c = CHUNK_TYPE_SUB \<and> PrefixType c = PREFIX_32B then (p, f - es, r \<union> es)
     else (p, f, r))"
  by (auto simp: chunk_effect_def Let_def fold_add4 fold_sub4 fold_add32 fold_sub32 fold_other)

lemma with_tables_frame [simp]:
  "Name (with_tables l t) = Name l"
  "FileName (with_tables l t) = FileName l"
  "DataRedirects (with_tables l t) = DataRedirects l"
  "DeleteChunks (with_tables l t) = DeleteChunks l"
  "ChunkRanges (with_tables l t) = ChunkRanges l"
  "Lookup (with_tables l t) = Lookup l"
  "FullHashes (with_tables l t) = FullHashes l"
  "FullHashRequested (with_tables l t) = FullHashRequested l"
  by (simp_all add: with_tables_def)

lemma chunk_deleted_with [simp]: "chunk_deleted (with_tables l t) c = chunk_deleted l c"
  by (simp add: chunk_deleted_def)

lemma index_existing_simps [simp]:
  "recv (index_existing c s) = recv s"
  "enc (index_existing c s) = enc s"
  "addChunkIndexes (index_existing c s) =
     (if known_width c then addChunkIndexes s \<union> numbers_of CHUNK_TYPE_ADD [c] else addChunkIndexes s)"
  "subChunkIndexes (index_existing c s) =
     (if known_width c then subChunkIndexes s \<union> numbers_of CHUNK_TYPE_SUB [c] else subChunkIndexes s)"
  by (cases "ChunkType c"; cases "PrefixType c";
      simp add: index_existing_def known_width_def numbers_of_def)+

lemma index_new_eq:
  "index_new c s = (if recognized c then Some (index_existing c s) else None)"
  by (cases "ChunkType c"; cases "PrefixType c";
      simp add: index_new_def index_existing_def recognized_def known_width_def)

lemma load_existing_chunk_char:
  "load_existing_chunk flt c s =
     (if chunk_deleted (recv s) c then
        Some (None, s\<lparr>deletedChunkCount := deletedChunkCount s + 1\<rparr>)
      else if encode_fails_at flt = Some (length (enc s)) then
        Some (Some EncodeError, index_existing c s)
      else if known_width c then
        Some (None, (index_existing c s)
          \<lparr>enc := enc s @ [c],
            recv := with_tables (recv s) (chunk_effect c (tables_of (recv s))),
            addedChunkCount := addedChunkCount (index_existing c s) + 1\<rparr>)
      else None)"
  by (simp add: load_existing_chunk_def Let_def Encode_def updateLookupMap_known
      updateLookupMap_unknown)

lemma load_new_chunk_char:
  "load_new_chunk flt c s =
     (if chunk_deleted (recv s) c then
        Some (None, s\<lparr>addedChunkCount := addedChunkCount s - 1\<rparr>)
      else if \<not> recognized c then
        Some (None, s\<lparr>out := out s @ [Warn ''Unknow chunk type''],
                      addedChunkCount := addedChunkCount s - 1\<rparr>)
      else if encode_fails_at flt = Some (length (enc s)) then
        Some (Some EncodeError, index_existing c s)
      else
        Some (None, (index_existing c s)
          \<lparr>enc := enc s @ [c],
            recv := with_tables (recv s) (chunk_effect c (tables_of (recv s)))\<rparr>))"
  by (simp add: load_new_chunk_def index_new_eq Encode_def updateLookupMap_known recognized_def)

lemma existing_chunk_ok:
  assumes "load_existing_chunk flt c s = Some (None, s')"
  shows "if chunk_deleted (recv s) c
         then recv s' = recv s \<and> enc s' = enc s \<and>
              addChunkIndexes s' = addChunkIndexes s \<and> subChunkIndexes s' = subChunkIndexes s
         else known_width c \<and>
              recv s' = with_tables (recv s) (chunk_effect c (tables_of (recv s))) \<and>
              enc s' = enc s @ [c] \<and>
              addChunkIndexes s' = addChunkIndexes s \<union> numbers_of CHUNK_TYPE_ADD [c] \<and>
              subChunkIndexes s' = subChunkIndexes s \<union> numbers_of CHUNK_TYPE_SUB [c]"
  using assms by (auto simp: load_existing_chunk_char split: if_splits)

lemma new_chunk_ok:
  assumes "load_new_chunk flt c s = Some (None, s')"
  shows "if chunk_deleted (recv s) c \<or> \<not> recognized c
         then recv s' = recv s \<and> enc s' = enc s \<and>
              addChunkIndexes s' = addChunkIndexes s \<and> subChunkIndexes s' = subChunkIndexes s
         else recv s' = with_tables (recv s) (chunk_effect c (tables_of (recv s))) \<and>
              enc s' = enc s @ [c] \<and>
              addChunkIndexes s' = addChunkIndexes s \<union> numbers_of CHUNK_TYPE_ADD [c] \<and>
              subChunkIndexes s' = subChunkIndexes s \<union> numbers_of CHUNK_TYPE_SUB [c]"
  using assms by (auto simp: load_new_chunk_char recognized_def split: if_splits)

lemma existing_chunk_sum:
  assumes "load_existing_chunk flt c s = Some (e, s')"
  shows "if chunk_deleted (recv s) c
         then e = None \<and> recv s' = recv s \<and> enc s' = enc s \<and>
              addChunkIndexes s' = addChunkIndexes s \<and> subChunkIndexes s' = subChunkIndexes s
         else addChunkIndexes s' \<subseteq> addChunkIndexes s \<union> numbers_of CHUNK_TYPE_ADD [c] \<and>
              subChunkIndexes s' \<subseteq> subChunkIndexes s \<union> numbers_of CHUNK_TYPE_SUB [c] \<and>
              (if e = None
               then enc s' = enc s @ [c] \<and>
                    recv s' = with_tables (recv s) (chunk_effect c (tables_of (recv s)))
               else e = Some EncodeError \<and> enc s' = enc s \<and> recv s' = recv s)"
  using assms by (auto simp: load_existing_chunk_char split: if_splits)

lemma new_chunk_sum:
  assumes "load_new_chunk flt c s = Some (e, s')"
  shows "if chunk_deleted (recv s) c
         then e = None \<and> recv s' = recv s \<and> enc s' = enc s \<and>
              addChunkIndexes s' = addChunkIndexes s \<and> subChunkIndexes s' = subChunkIndexes s
         else addChunkIndexes s' \<subseteq> addChunkIndexes s \<union> numbers_of CHUNK_TYPE_ADD [c] \<and>
              subChunkIndexes s' \<subseteq> subChunkIndexes s \<union> numbers_of CHUNK_TYPE_SUB [c] \<and>
              (if e = None \<and> recognized c
               then enc s' = enc s @ [c] \<and>
                    recv s' = with_tables (recv s) (chunk_effect c (tables_of (recv s)))
               else (e = None \<or> e = Some EncodeError) \<and> enc s' = enc s \<and> recv s' = recv s)"
  using assms by (auto simp: load_new_chunk_char recognized_def split: if_splits)

lemma existing_chunk_error:
  "load_existing_chunk flt c s = Some (Some e, s') \<Longrightarrow> e = EncodeError"
  by (auto simp: load_existing_chunk_char split: if_splits)

lemma new_chunk_error:
  "load_new_chunk flt c s = Some (Some e, s') \<Longrightarrow> e = EncodeError"
  by (auto simp: load_new_chunk_char split: if_splits)

lemma new_chunk_total: "load_new_chunk flt c s \<noteq> None"
  by (simp add: load_new_chunk_char)

lemma existing_chunk_total:
  "chunk_deleted (recv s) c \<or> known_width c \<Longrightarrow> load_existing_chunk flt c s \<noteq> None"
  by (auto simp: load_existing_chunk_char)

lemma existing_chunk_diverges:
  "\<not> chunk_deleted (recv s) c \<Longrightarrow> \<not> known_width c \<Longrightarrow>
   encode_fails_at flt \<noteq> Some (length (enc s)) \<Longrightarrow> load_existing_chunk flt c s = None"
  by (simp add: load_existing_chunk_char)

section \<open>The two loops of load\<close>

lemma same_frame_refl [simp]: "same_frame l l"
  by (simp add: same_frame_def)

lemma same_frame_with [simp]: "same_frame l (with_tables l t)"
  by (simp add: same_frame_def)

lemma same_frame_trans: "same_frame l l' \<Longrightarrow> same_frame l' l'' \<Longrightarrow> same_frame l l''"
  by (metis same_frame_def with_with)

lemma same_frame_fields:
  assumes "same_frame l l'"
  shows "Name l' = Name l" "FileName l' = FileName l" "DataRedirects l' = DataRedirects l"
    "DeleteChunks l' = DeleteChunks l" "ChunkRanges l' = ChunkRanges l"
    "Lookup l' = Lookup l" "FullHashes l' = FullHashes l"
    "FullHashRequested l' = FullHashRequested l"
  using assms unfolding same_frame_def by (metis with_tables_frame)+

lemma same_frame_deleted: "same_frame l l' \<Longrightarrow> chunk_deleted l' c = chunk_deleted l c"
  by (simp add: chunk_deleted_def same_frame_fields)

lemma existing_chunk_frame:
  assumes "load_existing_chunk flt c s = Some (e, s')"
  shows "same_frame (recv s) (recv s')"
  using assms by (auto simp: load_existing_chunk_char split: if_splits)

lemma new_chunk_frame:
  assumes "load_new_chunk flt c s = Some (e, s')"
  shows "same_frame (recv s) (recv s')"
  using assms by (auto simp: load_new_chunk_char split: if_splits)

lemma existing_frame:
  "load_existing flt items s = Some (e, s') \<Longrightarrow> same_frame (recv s) (recv s')"
proof (induction flt items s rule: load_existing.induct)
  case (3 flt chunk rest s)
  then show ?case
    by (auto split: option.splits prod.splits dest!: existing_chunk_frame
        intro: same_frame_trans)
qed auto

lemma existing_ok:
  assumes "load_existing flt items s = Some (None, s')"
  defines "kept \<equiv> filter (\<lambda>c. \<not> chunk_deleted (recv s) c) (records items)"
  shows "items = map Rec (records items) \<and> (\<forall>c\<in>set kept. known_width c) \<and>
         recv s' = with_tables (recv s) (fold chunk_effect kept (tables_of (recv s))) \<and>
         enc s' = enc s @ kept \<and>
         addChunkIndexes s' = addChunkIndexes s \<union> numbers_of CHUNK_TYPE_ADD kept \<and>
         subChunkIndexes s' = subChunkIndexes s \<union> numbers_of CHUNK_TYPE_SUB kept"
  using assms(1) unfolding kept_def
proof (induction flt items s rule: load_existing.induct)
  case (1 flt s)
  then show ?case by (simp add: numbers_of_def)
next
  case (2 flt rest s)
  then show ?case by simp
next
  case (3 flt chunk rest s)
  from "3.prems" obtain s1 where
    st: "load_existing_chunk flt chunk s = Some (None, s1)" and
    re: "load_existing flt rest s1 = Some (None, s')"
    by (auto split: option.splits)
  note ih = "3.IH" [OF st refl refl re]
  note ok = existing_chunk_ok [OF st]
  show ?case
  proof (cases "chunk_deleted (recv s) chunk")
    case True
    with ok ih show ?thesis by simp
  next
    case False
    with ok ih show ?thesis
      by (simp add: numbers_of_def Un_assoc)
  qed
qed

lemma new_frame:
  "load_new flt chunks s = Some (e, s') \<Longrightarrow> same_frame (recv s) (recv s')"
proof (induction flt chunks s rule: load_new.induct)
  case (2 flt chunk rest s)
  then show ?case
    by (auto split: option.splits prod.splits dest!: new_chunk_frame
        intro: same_frame_trans)
qed auto

lemma new_ok:
  assumes "load_new flt chunks s = Some (None, s')"
  defines "kept \<equiv> filter (\<lambda>c. \<not> chunk_deleted (recv s) c \<and> recognized c) chunks"
  shows "recv s' = with_tables (recv s) (fold chunk_effect kept (tables_of (recv s))) \<and>
         enc s' = enc s @ kept \<and>
         addChunkIndexes s' = addChunkIndexes s \<union> numbers_of CHUNK_TYPE_ADD kept \<and>
         subChunkIndexes s' = subChunkIndexes s \<union> numbers_of CHUNK_TYPE_SUB kept"
  using assms(1) unfolding kept_def
proof (induction flt chunks s rule: load_new.induct)
  case (1 flt s)
  then show ?case by (simp add: numbers_of_def)
next
  case (2 flt chunk rest s)
  from "2.prems" obtain s1 where
    st: "load_new_chunk flt chunk s = Some (None, s1)" and
    re: "load_new flt rest s1 = Some (None, s')"
    by (auto split: option.splits)
  note ih = "2.IH" [OF st refl refl re]
  note ok = new_chunk_ok [OF st]
  show ?case
  proof (cases "chunk_deleted (recv s) chunk \<or> \<not> recognized chunk")
    case True
    with ok ih show ?thesis by auto
  next
    case False
    with ok ih show ?thesis
      by (simp add: numbers_of_def Un_assoc)
  qed
qed

lemma new_total: "load_new flt chunks s \<noteq> None"
proof (induction flt chunks s rule: load_new.induct)
  case (2 flt chunk rest s)
  then show ?case
    using new_chunk_total [of flt chunk s] by (auto split: option.splits)
qed simp

lemma existing_total:
  "\<forall>c\<in>set (records items). chunk_deleted (recv s) c \<or> known_width c \<Longrightarrow>
   load_existing flt items s \<noteq> None"
proof (induction flt items s rule: load_existing.induct)
  case (3 flt chunk rest s)
  have "load_existing_chunk flt chunk s \<noteq> None"
    using "3.prems" by (intro existing_chunk_total) simp
  then obtain e s1 where st: "load_existing_chunk flt chunk s = Some (e, s1)"
    by (cases "load_existing_chunk flt chunk s") auto
  show ?case
  proof (cases e)
    case None
    have "\<forall>c\<in>set (records rest). chunk_deleted (recv s1) c \<or> known_width c"
      using "3.prems" same_frame_deleted [OF existing_chunk_frame [OF st]] by simp
    with "3.IH" [of "(e, s1)" e s1] st None show ?thesis by simp
  next
    case (Some a)
    with st show ?thesis by simp
  qed
qed simp_all

lemma fold_apply_hash:
  "0 < hashlen_of c \<Longrightarrow>
   fold (apply_hash (hashlen_of c) c) es l =
     with_tables l (fold (lookup_update_rule (ChunkType c) (PrefixType c)) es (tables_of l))"
  by (induction es arbitrary: l) (simp_all add: apply_hash_rule)

lemma entries_nth:
  "k < length b div w \<Longrightarrow> entries w b ! k = take w (drop (k * w) b)"
  by (simp add: entries_def)

lemma entries_in_bounds: "k < length b div w \<Longrightarrow> k * w + w \<le> length b"
proof -
  assume "k < length b div w"
  then have "Suc k \<le> length b div w" by simp
  then have "Suc k * w \<le> (length b div w) * w" by (rule mult_le_mono1)
  also have "\<dots> \<le> length b" by simp
  finally show ?thesis by (simp add: add.commute)
qed

lemma entries_take: "entries w (take (w * (length b div w)) b) = entries w b"
proof (cases "w = 0")
  case True
  then show ?thesis by (simp add: entries_def)
next
  case False
  have le: "w * (length b div w) \<le> length b" by simp
  have len: "length (take (w * (length b div w)) b) div w = length b div w"
    using False le by (simp add: min_absorb2)
  have "take w (drop (k * w) (take (w * (length b div w)) b)) = take w (drop (k * w) b)"
    if "k < length b div w" for k
  proof -
    from that have "Suc k \<le> length b div w" by simp
    then have "Suc k * w \<le> (length b div w) * w" by (rule mult_le_mono1)
    then have "k * w + w \<le> w * (length b div w)" by (simp add: mult.commute add.commute)
    then show ?thesis
      by (simp add: drop_take take_take min_absorb1)
  qed
  then show ?thesis
    unfolding entries_def len by simp
qed

section \<open>Claims about updateLookupMap\<close>

text \<open>
  C9. \<^verbatim>\<open>updateLookupMap\<close> returns for every chunk whose prefix type is \<^verbatim>\<open>PREFIX_4B\<close> or
  \<^verbatim>\<open>PREFIX_32B\<close>. For a chunk of any other prefix type the entry width stays 0 and the call
  never returns; the loop of \<^verbatim>\<open>load\<close> over the existing log passes such a chunk to it, so
  that a call of \<^verbatim>\<open>load\<close> which meets one as the first record of the log (not marked for
  deletion, the files opened and the record encoded without error) never returns either.
\<close>

theorem updateLookupMap_terminates_only_for_known_widths:
  "(PrefixType c = PREFIX_4B \<or> PrefixType c = PREFIX_32B \<longrightarrow>
      (\<exists>l'. updateLookupMap l c = Some (Inr l'))) \<and>
   (PrefixType c \<noteq> PREFIX_4B \<and> PrefixType c \<noteq> PREFIX_32B \<longrightarrow>
      hashlen_of c = 0 \<and> updateLookupMap l c = None \<and>
      (\<not> chunk_deleted l c \<and> \<not> open_fails flt \<and> \<not> create_fails flt \<and>
       encode_fails_at flt \<noteq> Some 0 \<and> fs w (FileName l) = Some (Rec c # rest) \<longrightarrow>
         load flt w l newChunks = None))"
proof (intro conjI impI)
  assume "PrefixType c = PREFIX_4B \<or> PrefixType c = PREFIX_32B"
  then have "known_width c" by (simp add: known_width_def)
  then show "\<exists>l'. updateLookupMap l c = Some (Inr l')"
    by (simp add: updateLookupMap_known)
next
  assume u: "PrefixType c \<noteq> PREFIX_4B \<and> PrefixType c \<noteq> PREFIX_32B"
  then have nk: "\<not> known_width c" by (simp add: known_width_def)
  then show "hashlen_of c = 0" by (rule hashlen_unknown)
  from nk show "updateLookupMap l c = None" by (rule updateLookupMap_unknown)
  assume a: "\<not> chunk_deleted l c \<and> \<not> open_fails flt \<and> \<not> create_fails flt \<and>
       encode_fails_at flt \<noteq> Some 0 \<and> fs w (FileName l) = Some (Rec c # rest)"
  let ?s = "load_start l (logged w @ [Info ''Reloading'' []])"
  have "\<not> chunk_deleted (recv ?s) c"
    using a by (simp add: load_start_def chunk_deleted_def)
  moreover have "encode_fails_at flt \<noteq> Some (length (enc ?s))"
    using a by (simp add: load_start_def)
  ultimately have "load_existing_chunk flt c ?s = None"
    using nk by (intro existing_chunk_diverges)
  then show "load flt w l newChunks = None"
    using a by (simp add: load_def load_open_def load_loops_def)
qed

text \<open>The theorem at a chunk of type \<^verbatim>\<open>PREFIX_4B\<close> and at one of an undeclared prefix type.\<close>

theorem updateLookupMap_terminates_only_for_known_widths_witness:
  "(\<exists>l'. updateLookupMap new_list chunk_add_prefix = Some (Inr l')) \<and>
   hashlen_of chunk_odd_prefix = 0 \<and> updateLookupMap new_list chunk_odd_prefix = None \<and>
   load no_faults (empty_world\<lparr>fs := [''malware.dat'' \<mapsto> [Rec chunk_odd_prefix]]\<rparr>) new_list [] = None"
  using updateLookupMap_terminates_only_for_known_widths
          [of chunk_add_prefix new_list no_faults
              "empty_world\<lparr>fs := [''malware.dat'' \<mapsto> [Rec chunk_odd_prefix]]\<rparr>" "[]" "[]"]
        updateLookupMap_terminates_only_for_known_widths
          [of chunk_odd_prefix new_list no_faults
              "empty_world\<lparr>fs := [''malware.dat'' \<mapsto> [Rec chunk_odd_prefix]]\<rparr>" "[]" "[]"]
  by (simp add: chunk_add_prefix_def chunk_odd_prefix_def new_list_def newSafeBrowsingList_def
      no_faults_def empty_world_def chunk_deleted_def)

text \<open>
  C10. For a chunk of prefix type \<^verbatim>\<open>PREFIX_4B\<close> or \<^verbatim>\<open>PREFIX_32B\<close>, \<^verbatim>\<open>updateLookupMap\<close> returns
  without a panic, having applied the switch of lines 330 to 355 to exactly the
  \<open>length (Hashes c) div hashlen\<close> entries of the blob, in order; each of them is a slice
  within the blob; and the bytes after the last whole entry play no part: the call gives
  the same on the blob cut after its last whole entry.
\<close>

theorem updateLookupMap_applies_whole_entries:
  assumes "PrefixType c = PREFIX_4B \<or> PrefixType c = PREFIX_32B"
  shows "updateLookupMap l c =
           Some (Inr (fold (apply_hash (hashlen_of c) c) (entries (hashlen_of c) (Hashes c)) l)) \<and>
         length (entries (hashlen_of c) (Hashes c)) = length (Hashes c) div hashlen_of c \<and>
         (\<forall>k < length (Hashes c) div hashlen_of c.
            slice (Hashes c) (k * hashlen_of c) (k * hashlen_of c + hashlen_of c) =
              Some (entries (hashlen_of c) (Hashes c) ! k)) \<and>
         updateLookupMap l
           (c\<lparr>Hashes := take (hashlen_of c * (length (Hashes c) div hashlen_of c)) (Hashes c)\<rparr>) =
           updateLookupMap l c"
proof -
  let ?w = "hashlen_of c"
  from assms have kw: "known_width c" by (simp add: known_width_def)
  then have w: "0 < ?w" by (rule hashlen_known)
  have 1: "updateLookupMap l c = Some (Inr (fold (apply_hash ?w c) (entries ?w (Hashes c)) l))"
    using kw w by (simp add: updateLookupMap_known chunk_effect_def fold_apply_hash)
  have 2: "length (entries ?w (Hashes c)) = length (Hashes c) div ?w"
    by (rule length_entries)
  have 3: "\<forall>k < length (Hashes c) div ?w.
      slice (Hashes c) (k * ?w) (k * ?w + ?w) = Some (entries ?w (Hashes c) ! k)"
    by (simp add: slice_def entries_in_bounds entries_nth)
  let ?c' = "c\<lparr>Hashes := take (?w * (length (Hashes c) div ?w)) (Hashes c)\<rparr>"
  have kw': "known_width ?c'" using kw by (simp add: known_width_def)
  have hl: "hashlen_of ?c' = ?w" by (simp add: hashlen_of_def)
  have "chunk_effect ?c' t = chunk_effect c t" for t
    by (simp add: chunk_effect_def hl entries_take)
  then have 4: "updateLookupMap l ?c' = updateLookupMap l c"
    using kw kw' by (simp add: updateLookupMap_known)
  from 1 2 3 4 show ?thesis by blast
qed

text \<open>The theorem at a blob of ten bytes and width 4: two entries, two bytes ignored.\<close>

theorem updateLookupMap_applies_whole_entries_witness:
  "updateLookupMap new_list chunk_ragged =
     Some (Inr (new_list\<lparr>tmpLookup := {''abcd'', ''efgh''}\<rparr>)) \<and>
   length (entries 4 ''abcdefghij'') = 2 \<and>
   slice ''abcdefghij'' 4 8 = Some ''efgh'' \<and>
   updateLookupMap new_list (chunk_ragged\<lparr>Hashes := ''abcdefgh''\<rparr>) =
     updateLookupMap new_list chunk_ragged"
proof -
  have p: "PrefixType chunk_ragged = PREFIX_4B \<or> PrefixType chunk_ragged = PREFIX_32B"
    by (simp add: chunk_ragged_def)
  have h: "hashlen_of chunk_ragged = 4"
    by (simp add: chunk_ragged_def hashlen_of_def PREFIX_4B_SZ_def)
  have e: "entries 4 ''abcdefghij'' = [''abcd'', ''efgh'']"
    by (simp add: entries_def upt_conv_Cons)
  have H: "Hashes chunk_ragged = ''abcdefghij''" by (simp add: chunk_ragged_def)
  note t = updateLookupMap_applies_whole_entries [OF p, of new_list, unfolded h H e]
  from t have a: "\<forall>k<2. slice ''abcdefghij'' (k * 4) (k * 4 + 4) = Some ([''abcd'', ''efgh''] ! k)"
    by simp
  from a [rule_format, of 1] have "slice ''abcdefghij'' 4 8 = Some ''efgh''"
    by simp
  moreover have "fold (apply_hash 4 chunk_ragged) [''abcd'', ''efgh''] new_list =
      new_list\<lparr>tmpLookup := {''abcd'', ''efgh''}\<rparr>"
    by (auto simp: apply_hash_def chunk_ragged_def PREFIX_4B_SZ_def HatTrie_Set_def new_list_def
        newSafeBrowsingList_def)
  ultimately show ?thesis using t by (simp add: e)
qed

section \<open>load: what a call returns\<close>

lemma load_start_simps [simp]:
  "recv (load_start l msgs) = with_tables l ({}, {}, {})"
  "enc (load_start l msgs) = []"
  "addChunkIndexes (load_start l msgs) = {}"
  "subChunkIndexes (load_start l msgs) = {}"
  by (simp_all add: load_start_def with_tables_def NewTrie_def)

lemma load_between_simps [simp]:
  "recv (load_between newChunks s) = recv s"
  "enc (load_between newChunks s) = enc s"
  "addChunkIndexes (load_between newChunks s) = addChunkIndexes s"
  "subChunkIndexes (load_between newChunks s) = subChunkIndexes s"
  by (simp_all add: load_between_def)

lemma numbers_of_append: "numbers_of T (xs @ ys) = numbers_of T xs \<union> numbers_of T ys"
  by (simp add: numbers_of_def)

lemma recognized_known: "recognized c \<Longrightarrow> known_width c"
  by (simp add: recognized_def)

lemma loops_frame:
  assumes "load_loops flt f newChunks s = Some (e, s')"
  shows "same_frame (recv s) (recv s')"
proof (cases f)
  case None
  with assms show ?thesis
    using new_frame [of flt newChunks "load_between newChunks s" e s']
    by (simp add: load_loops_def)
next
  case (Some items)
  show ?thesis
  proof (cases "load_existing flt items s")
    case None
    with assms Some show ?thesis by (simp add: load_loops_def)
  next
    case (Some r)
    obtain e1 s1 where r: "r = (e1, s1)" by (cases r)
    note ex = existing_frame [OF Some [unfolded r]]
    show ?thesis
    proof (cases e1)
      case None
      with assms \<open>f = Some items\<close> Some r
      have "load_new flt newChunks (load_between newChunks s1) = Some (e, s')"
        by (simp add: load_loops_def)
      from new_frame [OF this] ex show ?thesis
        by (auto intro: same_frame_trans)
    next
      case (Some a)
      with assms \<open>f = Some items\<close> \<open>load_existing flt items s = Some r\<close> r ex
      show ?thesis by (simp add: load_loops_def)
    qed
  qed
qed

lemma loops_ok:
  assumes "load_loops flt f newChunks s = Some (None, s')"
  defines "kept \<equiv> kept_chunks (recv s) f newChunks"
  shows "(\<forall>items. f = Some items \<longrightarrow> items = map Rec (records items)) \<and>
         (\<forall>c\<in>set kept. known_width c) \<and>
         recv s' = with_tables (recv s) (fold chunk_effect kept (tables_of (recv s))) \<and>
         enc s' = enc s @ kept \<and>
         addChunkIndexes s' = addChunkIndexes s \<union> numbers_of CHUNK_TYPE_ADD kept \<and>
         subChunkIndexes s' = subChunkIndexes s \<union> numbers_of CHUNK_TYPE_SUB kept"
proof (cases f)
  case None
  with assms(1) have n: "load_new flt newChunks (load_between newChunks s) = Some (None, s')"
    by (simp add: load_loops_def)
  from new_ok [OF n] None show ?thesis
    by (auto simp: kept_def kept_chunks_def existing_records_def recognized_known)
next
  case (Some items)
  from assms(1) Some obtain s1 where
    e: "load_existing flt items s = Some (None, s1)" and
    n: "load_new flt newChunks (load_between newChunks s1) = Some (None, s')"
    by (auto simp: load_loops_def split: option.splits)
  note eo = existing_ok [OF e]
  note no = new_ok [OF n]
  from eo have r1: "recv s1 = with_tables (recv s)
      (fold chunk_effect (filter (\<lambda>c. \<not> chunk_deleted (recv s) c) (records items)) (tables_of (recv s)))"
    by simp
  have d: "chunk_deleted (recv s1) c = chunk_deleted (recv s) c" for c
    by (simp add: r1)
  from eo no Some show ?thesis
    unfolding kept_def kept_chunks_def existing_records_def
    by (auto simp: d r1 numbers_of_append Un_assoc recognized_known)
qed

lemma existing_error:
  "load_existing flt items s = Some (Some e, s') \<Longrightarrow> e = EncodeError \<or> e = DecodeError"
proof (induction flt items s rule: load_existing.induct)
  case (3 flt chunk rest s)
  then show ?case
    by (auto split: option.splits prod.splits dest: existing_chunk_error)
qed auto

lemma new_error:
  "load_new flt chunks s = Some (Some e, s') \<Longrightarrow> e = EncodeError"
proof (induction flt chunks s rule: load_new.induct)
  case (2 flt chunk rest s)
  then show ?case
    by (auto split: option.splits prod.splits dest: new_chunk_error)
qed auto

lemma loops_error:
  "load_loops flt f newChunks s = Some (Some e, s') \<Longrightarrow> e = EncodeError \<or> e = DecodeError"
  by (auto simp: load_loops_def split: option.splits dest: existing_error new_error)

lemma kept_chunks_with [simp]: "kept_chunks (with_tables l t) f newChunks = kept_chunks l f newChunks"
  by (simp add: kept_chunks_def)

lemma load_unfold:
  "load flt w l newChunks =
     (let f = (if open_fails flt then None else fs w (FileName l));
          msgs = snd (load_open flt w l)
      in if create_fails flt then Some (Some CreateError, w\<lparr>logged := msgs\<rparr>, l)
         else case load_loops flt f newChunks (load_start l msgs) of
                None \<Rightarrow> None
              | Some (Some e, s) \<Rightarrow>
                  Some (load_leave ((fs w)(FileName l @ ''.tmp'' \<mapsto> [])) s (Some e))
              | Some (None, s) \<Rightarrow>
                  Some (load_commit flt (f \<noteq> None) ((fs w)(FileName l @ ''.tmp'' \<mapsto> [])) s))"
  by (simp add: load_def load_open_def Let_def)

lemma load_commit_ok:
  assumes "load_commit flt opened files s = (None, w', l')"
  shows "fs w' = (if opened then files(FileName (recv s) := None) else files)
                   (FileName (recv s) \<mapsto> map Rec (enc s), FileName (recv s) @ ''.tmp'' := None)"
    "l' = (recv s)\<lparr>Lookup := tmpLookup (recv s), FullHashes := tmpFullHashes (recv s),
             FullHashRequested := tmpFullHashRequested (recv s),
             ChunkRanges := [CHUNK_TYPE_ADD \<mapsto> buildChunkRanges (addChunkIndexes s),
                             CHUNK_TYPE_SUB \<mapsto> buildChunkRanges (subChunkIndexes s)],
             DeleteChunks := Map.empty\<rparr>"
    "\<not> (opened \<and> remove_fails flt)" "\<not> rename_fails flt"
  using assms by (auto simp: load_commit_def load_leave_def Let_def split: if_splits)

lemma load_commit_failed:
  assumes "load_commit flt opened files s = (Some e, w', l')"
  shows "l' = (recv s)\<lparr>Lookup := tmpLookup (recv s), FullHashes := tmpFullHashes (recv s),
             FullHashRequested := tmpFullHashRequested (recv s)\<rparr>"
    "e = RemoveError \<or> e = RenameError"
    "e = RemoveError \<Longrightarrow> fs w' = files(FileName (recv s) @ ''.tmp'' := None)"
    "e = RenameError \<Longrightarrow>
       fs w' = (if opened then files(FileName (recv s) := None) else files)
                 (FileName (recv s) @ ''.tmp'' := None)"
  using assms by (auto simp: load_commit_def load_leave_def Let_def split: if_splits)

lemma load_ok:
  assumes "load flt w l newChunks = Some (None, w', l')"
  defines "f \<equiv> (if open_fails flt then None else fs w (FileName l))"
  defines "kept \<equiv> kept_chunks l f newChunks"
  shows "fs w' (FileName l) = Some (map Rec kept) \<and>
         live_tables l' = fold chunk_effect kept ({}, {}, {}) \<and>
         ChunkRanges l' = [CHUNK_TYPE_ADD \<mapsto> buildChunkRanges (numbers_of CHUNK_TYPE_ADD kept),
                           CHUNK_TYPE_SUB \<mapsto> buildChunkRanges (numbers_of CHUNK_TYPE_SUB kept)] \<and>
         DeleteChunks l' = Map.empty \<and> FileName l' = FileName l \<and>
         (\<forall>c\<in>set kept. known_width c) \<and>
         (\<forall>items. f = Some items \<longrightarrow> items = map Rec (records items))"
proof -
  let ?msgs = "snd (load_open flt w l)"
  let ?files = "(fs w)(FileName l @ ''.tmp'' \<mapsto> [])"
  from assms(1) obtain s where
    lo: "load_loops flt f newChunks (load_start l ?msgs) = Some (None, s)" and
    co: "load_commit flt (f \<noteq> None) ?files s = (None, w', l')"
    unfolding load_unfold f_def
    by (auto simp: Let_def load_leave_def split: if_splits option.splits)
  note k = loops_ok [OF lo, simplified, folded kept_def]
  note c = load_commit_ok [OF co]
  from k have r: "recv s = with_tables l (fold chunk_effect kept ({}, {}, {}))"
    by simp
  have 1: "fs w' (FileName l) = Some (map Rec kept)"
    using c(1) k by (simp add: r)
  have 2: "live_tables l' = fold chunk_effect kept ({}, {}, {})"
    unfolding c(2) r by (simp add: live_tables_def with_tables_def)
  have 3: "ChunkRanges l' = [CHUNK_TYPE_ADD \<mapsto> buildChunkRanges (numbers_of CHUNK_TYPE_ADD kept),
                           CHUNK_TYPE_SUB \<mapsto> buildChunkRanges (numbers_of CHUNK_TYPE_SUB kept)]"
    unfolding c(2) using k by simp
  have 4: "DeleteChunks l' = Map.empty \<and> FileName l' = FileName l"
    unfolding c(2) r by simp
  from 1 2 3 4 k show ?thesis by blast
qed

lemma load_failed_early:
  assumes "load flt w l newChunks = Some (Some e, w', l')"
    and "e \<noteq> RemoveError" "e \<noteq> RenameError"
  shows "same_frame l l' \<and> fs w' (FileName l) = fs w (FileName l)"
proof (cases "create_fails flt")
  case True
  with assms(1) show ?thesis by (auto simp: load_unfold Let_def)
next
  case False
  let ?f = "if open_fails flt then None else fs w (FileName l)"
  let ?msgs = "snd (load_open flt w l)"
  let ?files = "(fs w)(FileName l @ ''.tmp'' \<mapsto> [])"
  from assms(1) False obtain r where
    lo: "load_loops flt ?f newChunks (load_start l ?msgs) = Some r"
    by (auto simp: load_unfold Let_def split: option.splits)
  obtain e1 s where r: "r = (e1, s)" by (cases r)
  have fr: "same_frame l (recv s)"
    using loops_frame [OF lo [unfolded r]] same_frame_trans [of l "with_tables l ({}, {}, {})"]
    by simp
  show ?thesis
  proof (cases e1)
    case None
    with assms(1) False lo r have "load_commit flt (?f \<noteq> None) ?files s = (Some e, w', l')"
      by (simp add: load_unfold Let_def)
    from load_commit_failed(2) [OF this] assms(2,3) show ?thesis by simp
  next
    case (Some a)
    with assms(1) False lo r have "load_leave ?files s (Some a) = (Some e, w', l')"
      by (simp add: load_unfold Let_def)
    then show ?thesis
      using fr by (auto simp: load_leave_def same_frame_fields)
  qed
qed

lemma load_failed_late:
  assumes "load flt w l newChunks = Some (Some e, w', l')"
    and "e = RemoveError \<or> e = RenameError"
  defines "f \<equiv> (if open_fails flt then None else fs w (FileName l))"
  defines "kept \<equiv> kept_chunks l f newChunks"
  shows "live_tables l' = fold chunk_effect kept ({}, {}, {}) \<and>
         ChunkRanges l' = ChunkRanges l \<and> DeleteChunks l' = DeleteChunks l \<and>
         fs w' (FileName l) = (if e = RenameError \<and> f \<noteq> None then None else fs w (FileName l))"
proof -
  let ?msgs = "snd (load_open flt w l)"
  let ?files = "(fs w)(FileName l @ ''.tmp'' \<mapsto> [])"
  have nc: "\<not> create_fails flt"
    using assms(1,2) by (auto simp: load_unfold Let_def)
  from assms(1) nc obtain r where
    lo: "load_loops flt f newChunks (load_start l ?msgs) = Some r"
    by (auto simp: load_unfold f_def Let_def split: option.splits)
  obtain e1 s where r: "r = (e1, s)" by (cases r)
  have e1: "e1 = None"
  proof (cases e1)
    case (Some a)
    with assms(1) nc lo r have "a = e"
      by (simp add: load_unfold f_def Let_def load_leave_def)
    with loops_error [of flt f newChunks "load_start l ?msgs" a s] lo r Some assms(2)
    show ?thesis by auto
  qed simp
  with assms(1) nc lo r have co: "load_commit flt (f \<noteq> None) ?files s = (Some e, w', l')"
    by (simp add: load_unfold f_def Let_def)
  note k = loops_ok [OF lo [unfolded r e1], simplified, folded kept_def]
  from k have rs: "recv s = with_tables l (fold chunk_effect kept ({}, {}, {}))"
    by simp
  note c = load_commit_failed [OF co]
  have 1: "live_tables l' = fold chunk_effect kept ({}, {}, {})"
    unfolding c(1) rs by (simp add: live_tables_def with_tables_def)
  have 2: "ChunkRanges l' = ChunkRanges l \<and> DeleteChunks l' = DeleteChunks l"
    unfolding c(1) rs by simp
  have 3: "fs w' (FileName l) = (if e = RenameError \<and> f \<noteq> None then None else fs w (FileName l))"
    using assms(2) c(3,4) by (auto simp: rs)
  from 1 2 3 show ?thesis by blast
qed

lemma loops_total:
  assumes "\<forall>c\<in>set (existing_records f). chunk_deleted (recv s) c \<or> known_width c"
  shows "load_loops flt f newChunks s \<noteq> None"
proof (cases f)
  case None
  then show ?thesis by (simp add: load_loops_def new_total)
next
  case (Some items)
  with assms have "load_existing flt items s \<noteq> None"
    by (intro existing_total) (simp add: existing_records_def)
  then obtain e s1 where ex: "load_existing flt items s = Some (e, s1)"
    by (cases "load_existing flt items s") auto
  show ?thesis
  proof (cases e)
    case None
    with Some ex show ?thesis by (simp add: load_loops_def new_total)
  next
    case (Some a)
    with \<open>f = Some items\<close> ex show ?thesis by (simp add: load_loops_def)
  qed
qed

lemma load_total:
  assumes "\<forall>c\<in>set (existing_records (if open_fails flt then None else fs w (FileName l))).
             chunk_deleted l c \<or> known_width c"
  shows "load flt w l newChunks \<noteq> None"
proof -
  let ?f = "if open_fails flt then None else fs w (FileName l)"
  have "load_loops flt ?f newChunks (load_start l (snd (load_open flt w l))) \<noteq> None"
    using assms by (intro loops_total) simp
  then obtain e s where
    "load_loops flt ?f newChunks (load_start l (snd (load_open flt w l))) = Some (e, s)"
    by (cases "load_loops flt ?f newChunks (load_start l (snd (load_open flt w l)))") auto
  then show ?thesis
    unfolding load_unfold Let_def
    by (cases e) (auto simp: load_commit_def load_leave_def Let_def)
qed

section \<open>Records marked for deletion\<close>

lemma deleted_same_key:
  "ChunkType c = ChunkType d \<Longrightarrow> ChunkNumber c = ChunkNumber d \<Longrightarrow>
   chunk_deleted l c = chunk_deleted l d"
  by (simp add: chunk_deleted_def split: option.splits)

lemma step_untouched:
  assumes d: "chunk_deleted l d" "untouched_by d s"
    and c: "\<not> chunk_deleted l c"
    and i: "addChunkIndexes s' \<subseteq> addChunkIndexes s \<union> numbers_of CHUNK_TYPE_ADD [c]"
      "subChunkIndexes s' \<subseteq> subChunkIndexes s \<union> numbers_of CHUNK_TYPE_SUB [c]"
      "set (enc s') \<subseteq> insert c (set (enc s))"
  shows "untouched_by d s'"
proof -
  from d(1) c have ne: "\<not> (ChunkType c = ChunkType d \<and> ChunkNumber c = ChunkNumber d)" "c \<noteq> d"
    using deleted_same_key [of c d l] by auto
  have a: "ChunkNumber d \<notin> numbers_of CHUNK_TYPE_ADD [c]" if "ChunkType d = CHUNK_TYPE_ADD"
    using ne that by (auto simp: numbers_of_def)
  have b: "ChunkNumber d \<notin> numbers_of CHUNK_TYPE_SUB [c]" if "ChunkType d = CHUNK_TYPE_SUB"
    using ne that by (auto simp: numbers_of_def)
  from d(2) i a b ne(2) show ?thesis
    unfolding untouched_by_def by blast
qed

lemma existing_chunk_untouched:
  assumes "load_existing_chunk flt c s = Some (e, s')"
    and "chunk_deleted (recv s) d" "untouched_by d s"
  shows "untouched_by d s'"
proof (cases "chunk_deleted (recv s) c")
  case True
  with existing_chunk_sum [OF assms(1)] assms(3) show ?thesis
    by (simp add: untouched_by_def)
next
  case False
  with existing_chunk_sum [OF assms(1)]
  have "addChunkIndexes s' \<subseteq> addChunkIndexes s \<union> numbers_of CHUNK_TYPE_ADD [c]"
    "subChunkIndexes s' \<subseteq> subChunkIndexes s \<union> numbers_of CHUNK_TYPE_SUB [c]"
    "set (enc s') \<subseteq> insert c (set (enc s))"
    by (auto split: if_splits)
  from step_untouched [OF assms(2,3) False this] show ?thesis .
qed

lemma new_chunk_untouched:
  assumes "load_new_chunk flt c s = Some (e, s')"
    and "chunk_deleted (recv s) d" "untouched_by d s"
  shows "untouched_by d s'"
proof (cases "chunk_deleted (recv s) c")
  case True
  with new_chunk_sum [OF assms(1)] assms(3) show ?thesis
    by (simp add: untouched_by_def)
next
  case False
  with new_chunk_sum [OF assms(1)]
  have "addChunkIndexes s' \<subseteq> addChunkIndexes s \<union> numbers_of CHUNK_TYPE_ADD [c]"
    "subChunkIndexes s' \<subseteq> subChunkIndexes s \<union> numbers_of CHUNK_TYPE_SUB [c]"
    "set (enc s') \<subseteq> insert c (set (enc s))"
    by (auto split: if_splits)
  from step_untouched [OF assms(2,3) False this] show ?thesis .
qed

lemma existing_chunk_built:
  assumes "load_existing_chunk flt c s = Some (e, s')"
    and "tables_of (recv s) = fold chunk_effect (enc s) t"
  shows "tables_of (recv s') = fold chunk_effect (enc s') t"
  using existing_chunk_sum [OF assms(1)] assms(2)
  by (cases "chunk_deleted (recv s) c"; cases "e = None") simp_all

lemma new_chunk_built:
  assumes "load_new_chunk flt c s = Some (e, s')"
    and "tables_of (recv s) = fold chunk_effect (enc s) t"
  shows "tables_of (recv s') = fold chunk_effect (enc s') t"
  using new_chunk_sum [OF assms(1)] assms(2)
  by (cases "chunk_deleted (recv s) c"; cases "e = None \<and> recognized c") simp_all

lemma existing_inv:
  assumes "load_existing flt items s = Some (e, s')"
    and "chunk_deleted (recv s) d" "untouched_by d s"
    and "tables_of (recv s) = fold chunk_effect (enc s) t"
  shows "untouched_by d s' \<and> tables_of (recv s') = fold chunk_effect (enc s') t"
  using assms
proof (induction flt items s rule: load_existing.induct)
  case (3 flt chunk rest s)
  from "3.prems"(1) obtain e1 s1 where st: "load_existing_chunk flt chunk s = Some (e1, s1)"
    by (auto split: option.splits)
  note u = existing_chunk_untouched [OF st "3.prems"(2,3)]
  note b = existing_chunk_built [OF st "3.prems"(4)]
  note d = same_frame_deleted [OF existing_chunk_frame [OF st], of d]
  show ?case
  proof (cases e1)
    case None
    with "3.prems"(1) st have re: "load_existing flt rest s1 = Some (e, s')" by simp
    from "3.IH" [OF st [unfolded None] refl refl re _ u b] d "3.prems"(2)
    show ?thesis by simp
  next
    case (Some a)
    with "3.prems"(1) st u b show ?thesis by simp
  qed
qed auto

lemma new_inv:
  assumes "load_new flt chunks s = Some (e, s')"
    and "chunk_deleted (recv s) d" "untouched_by d s"
    and "tables_of (recv s) = fold chunk_effect (enc s) t"
  shows "untouched_by d s' \<and> tables_of (recv s') = fold chunk_effect (enc s') t"
  using assms
proof (induction flt chunks s rule: load_new.induct)
  case (2 flt chunk rest s)
  from "2.prems"(1) obtain e1 s1 where st: "load_new_chunk flt chunk s = Some (e1, s1)"
    by (auto split: option.splits)
  note u = new_chunk_untouched [OF st "2.prems"(2,3)]
  note b = new_chunk_built [OF st "2.prems"(4)]
  note d = same_frame_deleted [OF new_chunk_frame [OF st], of d]
  show ?case
  proof (cases e1)
    case None
    with "2.prems"(1) st have re: "load_new flt rest s1 = Some (e, s')" by simp
    from "2.IH" [OF st [unfolded None] refl refl re _ u b] d "2.prems"(2)
    show ?thesis by simp
  next
    case (Some a)
    with "2.prems"(1) st u b show ?thesis by simp
  qed
qed auto

lemma untouched_between [simp]: "untouched_by d (load_between n s) = untouched_by d s"
  by (simp add: untouched_by_def)

lemma loops_inv:
  assumes "load_loops flt f newChunks s = Some (e, s')"
    and "chunk_deleted (recv s) d" "untouched_by d s"
    and "tables_of (recv s) = fold chunk_effect (enc s) t"
  shows "untouched_by d s' \<and> tables_of (recv s') = fold chunk_effect (enc s') t"
proof (cases f)
  case None
  with assms(1) have "load_new flt newChunks (load_between newChunks s) = Some (e, s')"
    by (simp add: load_loops_def)
  from new_inv [OF this, of d t] assms(2-) show ?thesis by simp
next
  case (Some items)
  from assms(1) Some obtain e1 s1 where ex: "load_existing flt items s = Some (e1, s1)"
    by (auto simp: load_loops_def split: option.splits)
  note i = existing_inv [OF ex assms(2-)]
  note d = same_frame_deleted [OF existing_frame [OF ex], of d]
  show ?thesis
  proof (cases e1)
    case None
    with assms(1) Some ex have "load_new flt newChunks (load_between newChunks s1) = Some (e, s')"
      by (simp add: load_loops_def)
    from new_inv [OF this, of d t] i d assms(2) show ?thesis by simp
  next
    case (Some a)
    with assms(1) \<open>f = Some items\<close> ex i show ?thesis by (simp add: load_loops_def)
  qed
qed

section \<open>Evaluating load on concrete inputs\<close>

lemmas load_eval =
  load_unfold load_open_def load_loops_def load_leave_def load_commit_def load_between_def
  load_start_def load_existing_chunk_char load_new_chunk_char Let_def chunk_deleted_def
  known_width_def recognized_def chunk_effect_cases index_existing_def hashlen_of_def
  PREFIX_4B_SZ_def PREFIX_32B_SZ_def entries_def upt_conv_Cons with_tables_def tables_of_def
  NewTrie_def existing_records_def

lemmas example_defs =
  new_list_def newSafeBrowsingList_def empty_world_def no_faults_def hash32_def
  chunk_add_prefix_def chunk_sub_full_def chunk_add_full_def chunk_odd_prefix_def
  chunk_odd_type_def chunk_ragged_def merged_world_def merged_list_def

lemma records_map_Rec [simp]: "records (map Rec cs) = cs"
  by (induction cs) simp_all

lemma load_success_state:
  assumes "load flt w l newChunks = Some (None, w', l')"
  shows "\<exists>s'. load_loops flt (if open_fails flt then None else fs w (FileName l)) newChunks
                 (load_start l (snd (load_open flt w l))) = Some (None, s') \<and>
              fs w' (FileName l) = Some (map Rec (enc s')) \<and>
              live_tables l' = tables_of (recv s') \<and>
              ChunkRanges l' = [CHUNK_TYPE_ADD \<mapsto> buildChunkRanges (addChunkIndexes s'),
                                CHUNK_TYPE_SUB \<mapsto> buildChunkRanges (subChunkIndexes s')]"
proof -
  let ?f = "if open_fails flt then None else fs w (FileName l)"
  let ?msgs = "snd (load_open flt w l)"
  let ?files = "(fs w)(FileName l @ ''.tmp'' \<mapsto> [])"
  from assms obtain s where
    lo: "load_loops flt ?f newChunks (load_start l ?msgs) = Some (None, s)" and
    co: "load_commit flt (?f \<noteq> None) ?files s = (None, w', l')"
    unfolding load_unfold
    by (auto simp: Let_def load_leave_def split: if_splits option.splits)
  note c = load_commit_ok [OF co]
  have fn: "FileName (recv s) = FileName l"
    using same_frame_fields(2) [OF loops_frame [OF lo]] by simp
  have 1: "fs w' (FileName l) = Some (map Rec (enc s))"
    using c(1) by (simp add: fn)
  have 2: "live_tables l' = tables_of (recv s)"
    unfolding c(2) by (simp add: live_tables_def tables_of_def)
  have 3: "ChunkRanges l' = [CHUNK_TYPE_ADD \<mapsto> buildChunkRanges (addChunkIndexes s),
                             CHUNK_TYPE_SUB \<mapsto> buildChunkRanges (subChunkIndexes s)]"
    unfolding c(2) by simp
  from lo 1 2 3 show ?thesis by blast
qed

section \<open>Claims about a successful merge\<close>

text \<open>
  C3. Deletion exclusivity. Let \<^verbatim>\<open>load\<close> return without error, and let \<open>c\<close> be a record of the
  existing log or of the new chunks whose type and number are in \<^verbatim>\<open>DeleteChunks\<close> when
  \<^verbatim>\<open>load\<close> is called. The two loops end in a state \<open>s'\<close> from which the commit takes the new
  log (the records \<open>enc s'\<close>), the three live tables (the temporary tables of \<open>recv s'\<close>) and
  the chunk ranges (the encodings of the two index sets). In that state the number of \<open>c\<close>
  is not in the index set of its type, \<open>c\<close> is not among the written records, and the
  tables are the effect, on empty tables, of the written records alone, so that no entry
  of \<open>c\<close> was applied by \<open>c\<close>.
\<close>

theorem deleted_chunks_leave_no_trace:
  assumes "load flt w l newChunks = Some (None, w', l')"
    and "c \<in> set (existing_records (if open_fails flt then None else fs w (FileName l))) \<union>
             set newChunks"
    and "chunk_deleted l c"
  shows "\<exists>s'. load_loops flt (if open_fails flt then None else fs w (FileName l)) newChunks
                 (load_start l (snd (load_open flt w l))) = Some (None, s') \<and>
              fs w' (FileName l) = Some (map Rec (enc s')) \<and>
              live_tables l' = tables_of (recv s') \<and>
              ChunkRanges l' = [CHUNK_TYPE_ADD \<mapsto> buildChunkRanges (addChunkIndexes s'),
                                CHUNK_TYPE_SUB \<mapsto> buildChunkRanges (subChunkIndexes s')] \<and>
              (ChunkType c = CHUNK_TYPE_ADD \<longrightarrow> ChunkNumber c \<notin> addChunkIndexes s') \<and>
              (ChunkType c = CHUNK_TYPE_SUB \<longrightarrow> ChunkNumber c \<notin> subChunkIndexes s') \<and>
              c \<notin> set (enc s') \<and>
              tables_of (recv s') = fold chunk_effect (enc s') ({}, {}, {})"
proof -
  let ?s0 = "load_start l (snd (load_open flt w l))"
  from load_success_state [OF assms(1)] obtain s' where
    lo: "load_loops flt (if open_fails flt then None else fs w (FileName l)) newChunks ?s0 =
           Some (None, s')" and
    rest: "fs w' (FileName l) = Some (map Rec (enc s'))" "live_tables l' = tables_of (recv s')"
      "ChunkRanges l' = [CHUNK_TYPE_ADD \<mapsto> buildChunkRanges (addChunkIndexes s'),
                         CHUNK_TYPE_SUB \<mapsto> buildChunkRanges (subChunkIndexes s')]"
    by blast
  have "chunk_deleted (recv ?s0) c"
    using assms(3) by simp
  moreover have "untouched_by c ?s0"
    by (simp add: untouched_by_def)
  moreover have "tables_of (recv ?s0) = fold chunk_effect (enc ?s0) ({}, {}, {})"
    by simp
  ultimately have "untouched_by c s' \<and> tables_of (recv s') = fold chunk_effect (enc s') ({}, {}, {})"
    by (rule loops_inv [OF lo])
  with lo rest show ?thesis
    unfolding untouched_by_def by blast
qed

text \<open>The theorem at scenario B of the spec: the log holds ADD chunk 1, marked for deletion.\<close>

theorem deleted_chunks_leave_no_trace_witness:
  "\<exists>w' l' kept.
     load no_faults (empty_world\<lparr>fs := [''malware.dat'' \<mapsto> [Rec chunk_add_prefix]]\<rparr>)
       (new_list\<lparr>DeleteChunks := [CHUNK_TYPE_ADD \<mapsto> {1}, CHUNK_TYPE_SUB \<mapsto> {}]\<rparr>) [] =
       Some (None, w', l') \<and>
     fs w' ''malware.dat'' = Some (map Rec kept) \<and> chunk_add_prefix \<notin> set kept \<and>
     live_tables l' = fold chunk_effect kept ({}, {}, {})"
proof -
  let ?w = "empty_world\<lparr>fs := [''malware.dat'' \<mapsto> [Rec chunk_add_prefix]]\<rparr>"
  let ?l = "new_list\<lparr>DeleteChunks := [CHUNK_TYPE_ADD \<mapsto> {1}, CHUNK_TYPE_SUB \<mapsto> {}]\<rparr>"
  have "\<exists>w' l'. load no_faults ?w ?l [] = Some (None, w', l')"
    by (simp add: load_eval example_defs)
  then obtain w' l' where ev: "load no_faults ?w ?l [] = Some (None, w', l')"
    by blast
  have m: "chunk_add_prefix \<in>
      set (existing_records (if open_fails no_faults then None else fs ?w (FileName ?l))) \<union> set []"
    by (simp add: example_defs existing_records_def)
  have d: "chunk_deleted ?l chunk_add_prefix"
    by (simp add: example_defs chunk_deleted_def)
  from deleted_chunks_leave_no_trace [OF ev m d] ev show ?thesis
    by (auto simp: new_list_def newSafeBrowsingList_def)
qed

text \<open>
  After every successful merge, for each of the two declared chunk types, \<^verbatim>\<open>ChunkRanges\<close>
  holds the range encoding of exactly the set of the chunk numbers of the records of that
  type in the new persisted log.
\<close>

lemma chunk_ranges_encode_retained_numbers:
  assumes "load flt w l newChunks = Some (None, w', l')"
  shows "\<exists>items. fs w' (FileName l') = Some items \<and>
           ChunkRanges l' CHUNK_TYPE_ADD =
             Some (buildChunkRanges (numbers_of CHUNK_TYPE_ADD (records items))) \<and>
           ChunkRanges l' CHUNK_TYPE_SUB =
             Some (buildChunkRanges (numbers_of CHUNK_TYPE_SUB (records items)))"
  using load_ok [OF assms] by simp

text \<open>Scenario A of the spec: no log yet, one ADD chunk of number 1.\<close>

lemma chunk_ranges_encode_retained_numbers_example:
  "\<exists>w' l'. load no_faults empty_world new_list [chunk_add_prefix] = Some (None, w', l') \<and>
     fs w' ''malware.dat'' = Some [Rec chunk_add_prefix] \<and>
     ChunkRanges l' CHUNK_TYPE_ADD = Some ''1'' \<and> ChunkRanges l' CHUNK_TYPE_SUB = Some ''''"
proof -
  have "\<exists>w' l'. load no_faults empty_world new_list [chunk_add_prefix] = Some (None, w', l') \<and>
      fs w' ''malware.dat'' = Some [Rec chunk_add_prefix] \<and> FileName l' = ''malware.dat''"
    by (simp add: load_eval example_defs)
  then obtain w' l' where
    ev: "load no_faults empty_world new_list [chunk_add_prefix] = Some (None, w', l')" and
    f: "fs w' ''malware.dat'' = Some [Rec chunk_add_prefix]" "FileName l' = ''malware.dat''"
    by blast
  have a: "buildChunkRanges (numbers_of CHUNK_TYPE_ADD [chunk_add_prefix]) = ''1''"
    unfolding numbers_of_def chunk_add_prefix_def by code_simp
  have b: "buildChunkRanges (numbers_of CHUNK_TYPE_SUB [chunk_add_prefix]) = ''''"
    unfolding numbers_of_def chunk_add_prefix_def by code_simp
  from chunk_ranges_encode_retained_numbers [OF ev] f a b ev show ?thesis
    by auto
qed

section \<open>Full hashes retracted by a SUB chunk\<close>

lemma resolved_grows: "h \<in> snd (snd t) \<Longrightarrow> h \<in> snd (snd (chunk_effect c t))"
  by (cases t) (simp add: chunk_effect_cases Let_def)

lemma resolved_grows_fold: "h \<in> snd (snd t) \<Longrightarrow> h \<in> snd (snd (fold chunk_effect cs t))"
  by (induction cs arbitrary: t) (simp_all add: resolved_grows)

lemma sub_full_effect:
  assumes "ChunkType c = CHUNK_TYPE_SUB" "PrefixType c = PREFIX_32B"
    and "h \<in> set (entries PREFIX_32B_SZ (Hashes c))"
  shows "h \<in> snd (snd (chunk_effect c t)) \<and> h \<notin> fst (snd (chunk_effect c t))"
  using assms by (cases t) (simp add: chunk_effect_cases Let_def hashlen_of_def)

lemma full_absent_kept:
  assumes "h \<notin> fst (snd t)"
    and "\<not> (ChunkType c = CHUNK_TYPE_ADD \<and> PrefixType c = PREFIX_32B \<and>
            h \<in> set (entries PREFIX_32B_SZ (Hashes c)))"
  shows "h \<notin> fst (snd (chunk_effect c t))"
  using assms by (cases t) (auto simp: chunk_effect_cases Let_def hashlen_of_def)

lemma full_absent_kept_fold:
  assumes "h \<notin> fst (snd t)"
    and "\<forall>c\<in>set cs. \<not> (ChunkType c = CHUNK_TYPE_ADD \<and> PrefixType c = PREFIX_32B \<and>
            h \<in> set (entries PREFIX_32B_SZ (Hashes c)))"
  shows "h \<notin> fst (snd (fold chunk_effect cs t))"
  using assms by (induction cs arbitrary: t) (simp_all add: full_absent_kept)

lemma kept_split:
  assumes "existing_records f @ newChunks = before @ c # after"
    and "\<not> chunk_deleted l c" "recognized c"
  shows "\<exists>xs ys. kept_chunks l f newChunks = xs @ c # ys \<and>
           set ys \<subseteq> {c' \<in> set after. \<not> chunk_deleted l c'}"
proof -
  let ?P = "\<lambda>c. \<not> chunk_deleted l c"
  let ?Q = "\<lambda>c. \<not> chunk_deleted l c \<and> recognized c"
  from assms(1) consider
    (old) us where "existing_records f = before @ c # us" "after = us @ newChunks"
  | (new) us where "newChunks = us @ c # after" "before = existing_records f @ us"
    by (auto simp: append_eq_append_conv2 Cons_eq_append_conv append_eq_Cons_conv)
  then show ?thesis
  proof cases
    case old
    then have "kept_chunks l f newChunks =
        filter ?P before @ c # (filter ?P us @ filter ?Q newChunks)"
      using assms(2) by (simp add: kept_chunks_def)
    moreover have "set (filter ?P us @ filter ?Q newChunks) \<subseteq> {c' \<in> set after. ?P c'}"
      using old by auto
    ultimately show ?thesis by blast
  next
    case new
    then have "kept_chunks l f newChunks =
        (filter ?P (existing_records f) @ filter ?Q us) @ c # filter ?Q after"
      using assms(2,3) by (simp add: kept_chunks_def)
    moreover have "set (filter ?Q after) \<subseteq> {c' \<in> set after. ?P c'}"
      by auto
    ultimately show ?thesis by blast
  qed
qed

text \<open>
  C4, as the code has it. Let \<^verbatim>\<open>load\<close> return without error, and let \<open>h\<close> be an entry of a
  SUB chunk of 32-byte hashes that the merge processes (it is read from the existing log
  or is among the new chunks, and is not marked for deletion). Then \<open>h\<close> is in
  \<^verbatim>\<open>FullHashRequested\<close> after the merge. It is not in \<^verbatim>\<open>FullHashes\<close> provided that no ADD
  chunk of 32-byte hashes processed later in the merge (the existing log first, then the
  new chunks) and not marked for deletion has \<open>h\<close> among its entries.
\<close>

theorem sub_full_hash_is_resolved_and_absent_unless_added_later:
  assumes "load flt w l newChunks = Some (None, w', l')"
    and "existing_records (if open_fails flt then None else fs w (FileName l)) @ newChunks =
           before @ c # after"
    and "ChunkType c = CHUNK_TYPE_SUB" "PrefixType c = PREFIX_32B" "\<not> chunk_deleted l c"
    and "h \<in> set (entries PREFIX_32B_SZ (Hashes c))"
  shows "h \<in> FullHashRequested l' \<and>
         ((\<forall>c'\<in>set after. ChunkType c' = CHUNK_TYPE_ADD \<and> PrefixType c' = PREFIX_32B \<and>
               h \<in> set (entries PREFIX_32B_SZ (Hashes c')) \<longrightarrow> chunk_deleted l c') \<longrightarrow>
          h \<notin> FullHashes l')"
proof -
  let ?f = "if open_fails flt then None else fs w (FileName l)"
  let ?kept = "kept_chunks l ?f newChunks"
  have rc: "recognized c"
    using assms(3,4) by (simp add: recognized_def known_width_def)
  from kept_split [OF assms(2,5) rc] obtain xs ys where
    k: "?kept = xs @ c # ys" and ys: "set ys \<subseteq> {c' \<in> set after. \<not> chunk_deleted l c'}"
    by blast
  from load_ok [OF assms(1)] have lt: "live_tables l' = fold chunk_effect ?kept ({}, {}, {})"
    by simp
  let ?t = "chunk_effect c (fold chunk_effect xs ({}, {}, {}))"
  have t: "live_tables l' = fold chunk_effect ys ?t"
    unfolding lt k by simp
  note se = sub_full_effect [OF assms(3,4,6), of "fold chunk_effect xs ({}, {}, {})"]
  have 1: "h \<in> FullHashRequested l'"
    using resolved_grows_fold [of h ?t ys] se t [symmetric]
    by (simp add: live_tables_def)
  have 2: "h \<notin> FullHashes l'"
    if a: "\<forall>c'\<in>set after. ChunkType c' = CHUNK_TYPE_ADD \<and> PrefixType c' = PREFIX_32B \<and>
               h \<in> set (entries PREFIX_32B_SZ (Hashes c')) \<longrightarrow> chunk_deleted l c'"
  proof -
    from a ys have "\<forall>c\<in>set ys. \<not> (ChunkType c = CHUNK_TYPE_ADD \<and> PrefixType c = PREFIX_32B \<and>
            h \<in> set (entries PREFIX_32B_SZ (Hashes c)))"
      by blast
    from full_absent_kept_fold [OF _ this, of ?t] se t [symmetric] show ?thesis
      by (simp add: live_tables_def)
  qed
  from 1 2 show ?thesis by blast
qed

text \<open>The theorem at a delta that first adds a full hash and then retracts it.\<close>

theorem sub_full_hash_is_resolved_and_absent_unless_added_later_witness:
  "\<exists>w' l'. load no_faults empty_world new_list [chunk_add_full, chunk_sub_full] = Some (None, w', l') \<and>
     hash32 \<in> set (entries PREFIX_32B_SZ (Hashes chunk_sub_full)) \<and>
     hash32 \<in> FullHashRequested l' \<and> hash32 \<notin> FullHashes l'"
proof -
  have "\<exists>w' l'. load no_faults empty_world new_list [chunk_add_full, chunk_sub_full] = Some (None, w', l')"
    by (simp add: load_eval example_defs)
  then obtain w' l' where
    ev: "load no_faults empty_world new_list [chunk_add_full, chunk_sub_full] = Some (None, w', l')"
    by blast
  have sp: "existing_records (if open_fails no_faults then None else fs empty_world (FileName new_list)) @
      [chunk_add_full, chunk_sub_full] = [chunk_add_full] @ chunk_sub_full # []"
    by (simp add: example_defs existing_records_def)
  have h: "hash32 \<in> set (entries PREFIX_32B_SZ (Hashes chunk_sub_full))"
    by (simp add: example_defs entries_def PREFIX_32B_SZ_def upt_conv_Cons)
  have p: "ChunkType chunk_sub_full = CHUNK_TYPE_SUB" "PrefixType chunk_sub_full = PREFIX_32B"
    "\<not> chunk_deleted new_list chunk_sub_full"
    by (simp_all add: example_defs chunk_deleted_def)
  from sub_full_hash_is_resolved_and_absent_unless_added_later [OF ev sp p h] ev h
  show ?thesis by auto
qed

text \<open>
  C4 as the claim states it fails: in the delta below the SUB chunk retracts a full hash
  and the ADD chunk after it adds the same hash again. The merge succeeds and the hash is
  a member of \<^verbatim>\<open>FullHashes\<close> afterwards: the later record decides.
\<close>

theorem sub_full_hash_is_added_back_by_a_later_chunk:
  "error_after (load no_faults empty_world new_list [chunk_sub_full, chunk_add_full]) = Some None \<and>
   ChunkType chunk_sub_full = CHUNK_TYPE_SUB \<and> PrefixType chunk_sub_full = PREFIX_32B \<and>
   \<not> chunk_deleted new_list chunk_sub_full \<and>
   hash32 \<in> set (entries PREFIX_32B_SZ (Hashes chunk_sub_full)) \<and>
   map_option FullHashes
     (list_after (load no_faults empty_world new_list [chunk_sub_full, chunk_add_full])) =
     Some {hash32}"
  by (simp add: load_eval example_defs error_after_def list_after_def)

section \<open>Merging an empty delta again\<close>

text \<open>
  C6. Idempotence. After a successful merge the pending deletions are empty and the
  persisted log is the one that merge wrote. A call of \<^verbatim>\<open>load\<close> with an empty delta in that
  state, in which \<^verbatim>\<open>os.Open\<close> of the log does not fail, returns, and whatever else fails or
  does not fail in it, the three containers have the members and \<^verbatim>\<open>ChunkRanges\<close> has the
  value they had before the call.
\<close>

theorem empty_delta_after_merge_changes_nothing:
  assumes "load flt w l newChunks = Some (None, w1, l1)"
    and "\<not> open_fails flt'"
  shows "\<exists>e w2 l2. load flt' w1 l1 [] = Some (e, w2, l2) \<and>
           Lookup l2 = Lookup l1 \<and> FullHashes l2 = FullHashes l1 \<and>
           FullHashRequested l2 = FullHashRequested l1 \<and> ChunkRanges l2 = ChunkRanges l1"
proof -
  let ?kept = "kept_chunks l (if open_fails flt then None else fs w (FileName l)) newChunks"
  note a = load_ok [OF assms(1)]
  from a have fn: "FileName l1 = FileName l" and fl: "fs w1 (FileName l1) = Some (map Rec ?kept)"
    and dc: "DeleteChunks l1 = Map.empty" and kw: "\<forall>c\<in>set ?kept. known_width c"
    and lt: "live_tables l1 = fold chunk_effect ?kept ({}, {}, {})"
    and cr: "ChunkRanges l1 = [CHUNK_TYPE_ADD \<mapsto> buildChunkRanges (numbers_of CHUNK_TYPE_ADD ?kept),
                           CHUNK_TYPE_SUB \<mapsto> buildChunkRanges (numbers_of CHUNK_TYPE_SUB ?kept)]"
    by simp_all
  let ?f2 = "if open_fails flt' then None else fs w1 (FileName l1)"
  have f2: "?f2 = Some (map Rec ?kept)"
    using assms(2) fl by simp
  have nd: "\<not> chunk_deleted l1 c" for c
    by (simp add: chunk_deleted_def dc)
  have er: "existing_records ?f2 = ?kept"
    unfolding f2 by (simp add: existing_records_def)
  have k2: "kept_chunks l1 ?f2 [] = ?kept"
    unfolding kept_chunks_def [of l1] er by (simp add: nd)
  have "load flt' w1 l1 [] \<noteq> None"
    using kw by (intro load_total) (simp only: er nd simp_thms)
  then obtain e w2 l2 where ev: "load flt' w1 l1 [] = Some (e, w2, l2)"
    by (cases "load flt' w1 l1 []") auto
  have "live_tables l2 = live_tables l1 \<and> ChunkRanges l2 = ChunkRanges l1"
  proof (cases e)
    case None
    from load_ok [OF ev [unfolded None]] show ?thesis
      unfolding k2 lt cr by simp
  next
    case (Some err)
    show ?thesis
    proof (cases "err = RemoveError \<or> err = RenameError")
      case True
      from load_failed_late [OF ev [unfolded Some] True] show ?thesis
        unfolding k2 lt by simp
    next
      case False
      then have "err \<noteq> RemoveError" "err \<noteq> RenameError" by simp_all
      from load_failed_early [OF ev [unfolded Some] this] show ?thesis
        by (simp add: live_tables_def same_frame_fields)
    qed
  qed
  with ev show ?thesis
    by (auto simp: live_tables_def)
qed

text \<open>The theorem after scenario A of the spec.\<close>

theorem empty_delta_after_merge_changes_nothing_witness:
  "\<exists>w1 l1. load no_faults empty_world new_list [chunk_add_prefix] = Some (None, w1, l1) \<and>
     (\<exists>e w2 l2. load no_faults w1 l1 [] = Some (e, w2, l2) \<and>
        Lookup l2 = Lookup l1 \<and> FullHashes l2 = FullHashes l1 \<and>
        FullHashRequested l2 = FullHashRequested l1 \<and> ChunkRanges l2 = ChunkRanges l1)"
proof -
  have "\<exists>w1 l1. load no_faults empty_world new_list [chunk_add_prefix] = Some (None, w1, l1)"
    by (simp add: load_eval example_defs)
  then obtain w1 l1 where
    ev: "load no_faults empty_world new_list [chunk_add_prefix] = Some (None, w1, l1)"
    by blast
  have o: "\<not> open_fails no_faults" by (simp add: no_faults_def)
  from empty_delta_after_merge_changes_nothing [OF ev o] ev show ?thesis
    by blast
qed

section \<open>An empty delta and no log\<close>

lemmas after_defs = error_after_def file_after_def list_after_def ranges_after_def deletions_after_def

lemma load_success_faults:
  assumes "load flt w l newChunks = Some (None, w', l')"
  shows "\<not> create_fails flt \<and> \<not> rename_fails flt \<and>
         \<not> (remove_fails flt \<and> \<not> open_fails flt \<and> fs w (FileName l) \<noteq> None)"
proof -
  let ?f = "if open_fails flt then None else fs w (FileName l)"
  from assms obtain s where
    co: "load_commit flt (?f \<noteq> None) ((fs w)(FileName l @ ''.tmp'' \<mapsto> [])) s = (None, w', l')"
    and nc: "\<not> create_fails flt"
    unfolding load_unfold
    by (auto simp: Let_def load_leave_def split: if_splits option.splits)
  from load_commit_ok(3,4) [OF co] nc show ?thesis by (auto split: if_splits)
qed

text \<open>
  C7, as the code has it. When the list has no pending delta source (\<^verbatim>\<open>DataRedirects\<close> is
  empty), \<^verbatim>\<open>loadDataFromRedirectLists\<close> is a no-op, whether or not a persisted log exists: it
  returns no error, the list is unchanged and so is every file. \<^verbatim>\<open>load\<close> itself, called with
  an empty delta when no persisted log exists and neither \<^verbatim>\<open>os.Create\<close> nor \<^verbatim>\<open>os.Rename\<close>
  fails, is not a no-op: it returns no error, having created a persisted log without
  records, put empty tables in the place of the three containers, set both chunk ranges to
  the encoding of the empty set and put an empty map in the place of \<^verbatim>\<open>DeleteChunks\<close>.
\<close>

theorem no_pending_sources_is_a_noop_but_load_of_nothing_is_not:
  "(DataRedirects l = [] \<longrightarrow>
      (\<exists>w'. loadDataFromRedirectLists request flt w l = Some (None, w', l) \<and> fs w' = fs w)) \<and>
   (fs w (FileName l) = None \<and> \<not> create_fails flt \<and> \<not> rename_fails flt \<longrightarrow>
      (\<exists>w' l'. load flt w l [] = Some (None, w', l') \<and>
         fs w' (FileName l) = Some [] \<and> live_tables l' = ({}, {}, {}) \<and>
         ChunkRanges l' = [CHUNK_TYPE_ADD \<mapsto> buildChunkRanges {},
                           CHUNK_TYPE_SUB \<mapsto> buildChunkRanges {}] \<and>
         DeleteChunks l' = Map.empty))"
proof (intro conjI impI)
  assume "DataRedirects l = []"
  then show "\<exists>w'. loadDataFromRedirectLists request flt w l = Some (None, w', l) \<and> fs w' = fs w"
    by (simp add: loadDataFromRedirectLists_def)
next
  assume a: "fs w (FileName l) = None \<and> \<not> create_fails flt \<and> \<not> rename_fails flt"
  then have "\<exists>w' l'. load flt w l [] = Some (None, w', l')"
    by (simp add: load_unfold load_loops_def load_commit_def load_leave_def Let_def)
  then obtain w' l' where ev: "load flt w l [] = Some (None, w', l')" by blast
  have k: "kept_chunks l (if open_fails flt then None else fs w (FileName l)) [] = []"
    using a by (simp add: kept_chunks_def existing_records_def)
  from load_ok [OF ev] ev show "\<exists>w' l'. load flt w l [] = Some (None, w', l') \<and>
         fs w' (FileName l) = Some [] \<and> live_tables l' = ({}, {}, {}) \<and>
         ChunkRanges l' = [CHUNK_TYPE_ADD \<mapsto> buildChunkRanges {},
                           CHUNK_TYPE_SUB \<mapsto> buildChunkRanges {}] \<and>
         DeleteChunks l' = Map.empty"
    unfolding k by (simp add: numbers_of_def)
qed

text \<open>The theorem at a list without pending sources, and at a new list in a world without
  files.\<close>

theorem no_pending_sources_is_a_noop_but_load_of_nothing_is_not_witness:
  "(\<exists>w'. loadDataFromRedirectLists (\<lambda>url. RequestFailed) no_faults merged_world merged_list =
            Some (None, w', merged_list) \<and> fs w' = fs merged_world) \<and>
   (\<exists>w' l'. load no_faults empty_world new_list [] = Some (None, w', l') \<and>
      fs w' ''malware.dat'' = Some [] \<and> DeleteChunks l' = Map.empty)"
proof -
  have 1: "DataRedirects merged_list = []"
    by (simp add: example_defs)
  have 2: "fs empty_world (FileName new_list) = None \<and> \<not> create_fails no_faults \<and>
      \<not> rename_fails no_faults"
    by (simp add: example_defs)
  have 3: "FileName new_list = ''malware.dat''"
    by (simp add: example_defs)
  from no_pending_sources_is_a_noop_but_load_of_nothing_is_not
         [of merged_list "\<lambda>url. RequestFailed" no_faults merged_world] 1
       no_pending_sources_is_a_noop_but_load_of_nothing_is_not
         [of new_list "\<lambda>url. RequestFailed" no_faults empty_world] 2 3
  show ?thesis by auto
qed

text \<open>
  C7 as the claim states it fails for \<^verbatim>\<open>load\<close>: on a new list, with no file in the world and
  an empty delta, the call succeeds, the persisted log exists afterwards, the entry of
  \<^verbatim>\<open>DeleteChunks\<close> for ADD is gone and \<^verbatim>\<open>ChunkRanges\<close> has an entry for ADD.
\<close>

theorem load_of_nothing_creates_a_log_and_resets_the_list:
  "fs empty_world (FileName new_list) = None \<and>
   error_after (load no_faults empty_world new_list []) = Some None \<and>
   file_after (load no_faults empty_world new_list []) (FileName new_list) = Some [] \<and>
   DeleteChunks new_list CHUNK_TYPE_ADD = Some {} \<and>
   deletions_after (load no_faults empty_world new_list []) CHUNK_TYPE_ADD = None \<and>
   ChunkRanges new_list CHUNK_TYPE_ADD = None \<and>
   ranges_after (load no_faults empty_world new_list []) CHUNK_TYPE_ADD = Some (buildChunkRanges {})"
  by (simp add: load_eval example_defs after_defs)

section \<open>Failures of the storage layer\<close>

lemma index_existing_out: "x \<in> set (out s) \<Longrightarrow> x \<in> set (out (index_existing c s))"
  by (cases "ChunkType c"; cases "PrefixType c"; simp add: index_existing_def)

lemma new_chunk_out:
  "load_new_chunk flt c s = Some (e, s') \<Longrightarrow> x \<in> set (out s) \<Longrightarrow> x \<in> set (out s')"
  by (auto simp: load_new_chunk_char index_existing_out split: if_splits)

lemma new_out:
  "load_new flt chunks s = Some (e, s') \<Longrightarrow> x \<in> set (out s) \<Longrightarrow> x \<in> set (out s')"
proof (induction flt chunks s rule: load_new.induct)
  case (2 flt chunk rest s)
  from "2.prems"(1) obtain e1 s1 where st: "load_new_chunk flt chunk s = Some (e1, s1)"
    by (auto split: option.splits)
  note o = new_chunk_out [OF st "2.prems"(2)]
  show ?case
  proof (cases e1)
    case None
    with "2.prems"(1) st have "load_new flt rest s1 = Some (e, s')" by simp
    from "2.IH" [OF st [unfolded None] refl refl this o] show ?thesis .
  next
    case (Some a)
    with "2.prems"(1) st o show ?thesis by simp
  qed
qed simp

lemma new_chunk_no_error:
  "encode_fails_at flt = None \<Longrightarrow> \<exists>s'. load_new_chunk flt c s = Some (None, s')"
  by (simp add: load_new_chunk_char)

lemma new_no_error:
  "encode_fails_at flt = None \<Longrightarrow> \<exists>s'. load_new flt chunks s = Some (None, s')"
proof (induction flt chunks s rule: load_new.induct)
  case (2 flt chunk rest s)
  from new_chunk_no_error [OF "2.prems", of chunk s] obtain s1 where
    st: "load_new_chunk flt chunk s = Some (None, s1)" by blast
  from "2.IH" [OF st refl refl "2.prems"] st show ?case by simp
qed simp

lemma load_open_failure_warns:
  assumes "open_fails flt" and "load flt w l newChunks = Some (e, w', l')"
  shows "Warn ''Error opening data file for reading, assuming empty'' \<in> set (logged w')"
proof (cases "create_fails flt")
  case True
  with assms show ?thesis
    by (auto simp: load_unfold load_open_def Let_def)
next
  case False
  let ?x = "Warn ''Error opening data file for reading, assuming empty''"
  let ?s0 = "load_between newChunks (load_start l (snd (load_open flt w l)))"
  let ?files = "(fs w)(FileName l @ ''.tmp'' \<mapsto> [])"
  have x0: "?x \<in> set (out ?s0)"
    using assms(1) by (simp add: load_between_def load_start_def load_open_def)
  from assms False obtain e1 s where
    n: "load_new flt newChunks ?s0 = Some (e1, s)"
    by (auto simp: load_unfold load_loops_def Let_def split: option.splits)
  note xs = new_out [OF n x0]
  show ?thesis
  proof (cases e1)
    case None
    with assms False n have "load_commit flt False ?files s = (e, w', l')"
      by (simp add: load_unfold load_loops_def Let_def)
    with xs show ?thesis
      by (auto simp: load_commit_def load_leave_def Let_def split: if_splits)
  next
    case (Some a)
    with assms False n have "load_leave ?files s (Some a) = (e, w', l')"
      by (simp add: load_unfold load_loops_def Let_def)
    with xs show ?thesis
      by (auto simp: load_leave_def)
  qed
qed

lemma load_open_failure_goes_on:
  assumes "open_fails flt" "\<not> create_fails flt" "encode_fails_at flt = None" "\<not> rename_fails flt"
  shows "\<exists>w' l'. load flt w l newChunks = Some (None, w', l')"
proof -
  let ?s0 = "load_between newChunks (load_start l (snd (load_open flt w l)))"
  from new_no_error [OF assms(3), of newChunks ?s0] obtain s where
    n: "load_new flt newChunks ?s0 = Some (None, s)" by blast
  with assms show ?thesis
    by (simp add: load_unfold load_loops_def Let_def load_commit_def load_leave_def)
qed

text \<open>
  C8, as the code has it. A failure to create the temporary file makes \<^verbatim>\<open>load\<close> return an
  error, with the list and every file as they were. When the temporary file cannot be
  renamed, or the old log was opened and cannot be removed, \<^verbatim>\<open>load\<close> does not return
  success: whatever it returns is an error, and it does return one whenever every record
  read from the log is marked for deletion or has a declared prefix type (otherwise the
  call never returns, as in C9). A failure to open the persisted log for a reason other
  than its absence does not abort the call: the warning is logged on every return, the log
  is taken to be empty, and when nothing else fails (\<^verbatim>\<open>os.Create\<close>, \<^verbatim>\<open>enc.Encode\<close>,
  \<^verbatim>\<open>os.Rename\<close>) the call returns without error and leaves as the persisted log, and in the
  three containers, the kept records of the delta alone.
\<close>

theorem storage_failures_abort_except_open:
  "(create_fails flt \<longrightarrow>
      (\<exists>w'. load flt w l newChunks = Some (Some CreateError, w', l) \<and> fs w' = fs w)) \<and>
   (load flt w l newChunks = Some (e, w', l') \<and>
    (rename_fails flt \<or> remove_fails flt \<and> \<not> open_fails flt \<and> fs w (FileName l) \<noteq> None) \<longrightarrow>
      e \<noteq> None) \<and>
   ((rename_fails flt \<or> remove_fails flt \<and> \<not> open_fails flt \<and> fs w (FileName l) \<noteq> None) \<and>
    (\<forall>c\<in>set (existing_records (if open_fails flt then None else fs w (FileName l))).
        chunk_deleted l c \<or> known_width c) \<longrightarrow>
      (\<exists>err w2 l2. load flt w l newChunks = Some (Some err, w2, l2))) \<and>
   (open_fails flt \<and> load flt w l newChunks = Some (e, w', l') \<longrightarrow>
      Warn ''Error opening data file for reading, assuming empty'' \<in> set (logged w')) \<and>
   (open_fails flt \<and> load flt w l newChunks = Some (None, w', l') \<longrightarrow>
      fs w' (FileName l) = Some (map Rec (kept_chunks l None newChunks)) \<and>
      live_tables l' = fold chunk_effect (kept_chunks l None newChunks) ({}, {}, {})) \<and>
   (open_fails flt \<and> \<not> create_fails flt \<and> encode_fails_at flt = None \<and> \<not> rename_fails flt \<longrightarrow>
      (\<exists>w2 l2. load flt w l newChunks = Some (None, w2, l2) \<and>
         fs w2 (FileName l) = Some (map Rec (kept_chunks l None newChunks)) \<and>
         live_tables l2 = fold chunk_effect (kept_chunks l None newChunks) ({}, {}, {}) \<and>
         Warn ''Error opening data file for reading, assuming empty'' \<in> set (logged w2)))"
proof -
  have 1: "\<exists>w'. load flt w l newChunks = Some (Some CreateError, w', l) \<and> fs w' = fs w"
    if "create_fails flt"
    using that by (simp add: load_unfold Let_def)
  have 2: "e \<noteq> None"
    if a: "load flt w l newChunks = Some (e, w', l')"
      "rename_fails flt \<or> remove_fails flt \<and> \<not> open_fails flt \<and> fs w (FileName l) \<noteq> None"
    for e w' l'
  proof
    assume "e = None"
    with a(1) have "load flt w l newChunks = Some (None, w', l')" by simp
    from load_success_faults [OF this] a(2) show False by blast
  qed
  have 3: "\<exists>err w2 l2. load flt w l newChunks = Some (Some err, w2, l2)"
    if a: "rename_fails flt \<or> remove_fails flt \<and> \<not> open_fails flt \<and> fs w (FileName l) \<noteq> None"
      and k: "\<forall>c\<in>set (existing_records (if open_fails flt then None else fs w (FileName l))).
                chunk_deleted l c \<or> known_width c"
  proof -
    from load_total [OF k, of newChunks] obtain e2 w2 l2 where
      ev: "load flt w l newChunks = Some (e2, w2, l2)"
      by (cases "load flt w l newChunks") auto
    from 2 [OF ev a] obtain err where "e2 = Some err" by (cases e2) auto
    with ev show ?thesis by blast
  qed
  have 4: "Warn ''Error opening data file for reading, assuming empty'' \<in> set (logged w')"
    if "open_fails flt" "load flt w l newChunks = Some (e, w', l')" for e w' l'
    using that by (rule load_open_failure_warns)
  have 5: "fs w' (FileName l) = Some (map Rec (kept_chunks l None newChunks)) \<and>
      live_tables l' = fold chunk_effect (kept_chunks l None newChunks) ({}, {}, {})"
    if a: "open_fails flt" "load flt w l newChunks = Some (None, w', l')" for w' l'
    using load_ok [OF a(2)] a(1) by simp
  have 6: "\<exists>w2 l2. load flt w l newChunks = Some (None, w2, l2) \<and>
         fs w2 (FileName l) = Some (map Rec (kept_chunks l None newChunks)) \<and>
         live_tables l2 = fold chunk_effect (kept_chunks l None newChunks) ({}, {}, {}) \<and>
         Warn ''Error opening data file for reading, assuming empty'' \<in> set (logged w2)"
    if a: "open_fails flt" "\<not> create_fails flt" "encode_fails_at flt = None" "\<not> rename_fails flt"
  proof -
    from load_open_failure_goes_on [OF a] obtain w2 l2 where
      ev: "load flt w l newChunks = Some (None, w2, l2)" by blast
    from 5 [OF a(1) ev] 4 [OF a(1) ev] ev show ?thesis by blast
  qed
  have c1: "create_fails flt \<longrightarrow>
      (\<exists>w'. load flt w l newChunks = Some (Some CreateError, w', l) \<and> fs w' = fs w)"
    using 1 by (rule impI)
  have c2: "load flt w l newChunks = Some (e, w', l') \<and>
    (rename_fails flt \<or> remove_fails flt \<and> \<not> open_fails flt \<and> fs w (FileName l) \<noteq> None) \<longrightarrow>
      e \<noteq> None"
    using 2 [of e w' l'] by (intro impI) (elim conjE)
  have c3: "(rename_fails flt \<or> remove_fails flt \<and> \<not> open_fails flt \<and> fs w (FileName l) \<noteq> None) \<and>
    (\<forall>c\<in>set (existing_records (if open_fails flt then None else fs w (FileName l))).
        chunk_deleted l c \<or> known_width c) \<longrightarrow>
      (\<exists>err w2 l2. load flt w l newChunks = Some (Some err, w2, l2))"
    using 3 by (intro impI) (elim conjE)
  have c4: "open_fails flt \<and> load flt w l newChunks = Some (e, w', l') \<longrightarrow>
      Warn ''Error opening data file for reading, assuming empty'' \<in> set (logged w')"
    using 4 [of e w' l'] by (intro impI) (elim conjE)
  have c5: "open_fails flt \<and> load flt w l newChunks = Some (None, w', l') \<longrightarrow>
      fs w' (FileName l) = Some (map Rec (kept_chunks l None newChunks)) \<and>
      live_tables l' = fold chunk_effect (kept_chunks l None newChunks) ({}, {}, {})"
    using 5 [of w' l'] by (intro impI) (elim conjE)
  have c6: "open_fails flt \<and> \<not> create_fails flt \<and> encode_fails_at flt = None \<and> \<not> rename_fails flt \<longrightarrow>
      (\<exists>w2 l2. load flt w l newChunks = Some (None, w2, l2) \<and>
         fs w2 (FileName l) = Some (map Rec (kept_chunks l None newChunks)) \<and>
         live_tables l2 = fold chunk_effect (kept_chunks l None newChunks) ({}, {}, {}) \<and>
         Warn ''Error opening data file for reading, assuming empty'' \<in> set (logged w2))"
    using 6 by (intro impI) (elim conjE)
  from c1 c2 c3 c4 c5 c6 show ?thesis by (intro conjI)
qed

text \<open>The theorem where \<^verbatim>\<open>os.Create\<close> fails, where \<^verbatim>\<open>os.Rename\<close> fails, where \<^verbatim>\<open>os.Remove\<close>
  fails, and where \<^verbatim>\<open>os.Open\<close> fails on a log that exists.\<close>

theorem storage_failures_abort_except_open_witness:
  "(\<exists>w'. load (no_faults\<lparr>create_fails := True\<rparr>) merged_world merged_list [chunk_sub_full] =
            Some (Some CreateError, w', merged_list) \<and> fs w' = fs merged_world) \<and>
   (\<exists>err w' l'. load (no_faults\<lparr>rename_fails := True\<rparr>) merged_world merged_list [chunk_sub_full] =
            Some (Some err, w', l')) \<and>
   (\<exists>err w' l'. load (no_faults\<lparr>remove_fails := True\<rparr>) merged_world merged_list [chunk_sub_full] =
            Some (Some err, w', l')) \<and>
   (\<exists>w' l'. load (no_faults\<lparr>open_fails := True\<rparr>) merged_world merged_list [chunk_sub_full] =
            Some (None, w', l') \<and>
      fs w' ''malware.dat'' = Some [Rec chunk_sub_full] \<and> live_tables l' = ({}, {}, {hash32}) \<and>
      Warn ''Error opening data file for reading, assuming empty'' \<in> set (logged w'))"
proof -
  let ?c = "no_faults\<lparr>create_fails := True\<rparr>"
  let ?r = "no_faults\<lparr>rename_fails := True\<rparr>"
  let ?m = "no_faults\<lparr>remove_fails := True\<rparr>"
  let ?o = "no_faults\<lparr>open_fails := True\<rparr>"
  have kw: "known_width chunk_add_prefix"
    by (simp add: known_width_def example_defs)
  have fn: "FileName merged_list = ''malware.dat''"
    by (simp add: example_defs)
  have 1: "\<exists>w'. load ?c merged_world merged_list [chunk_sub_full] =
            Some (Some CreateError, w', merged_list) \<and> fs w' = fs merged_world"
    using storage_failures_abort_except_open [of ?c merged_world merged_list "[chunk_sub_full]"]
    by (simp add: no_faults_def)
  have 2: "\<exists>err w' l'. load ?r merged_world merged_list [chunk_sub_full] = Some (Some err, w', l')"
    using storage_failures_abort_except_open [of ?r merged_world merged_list "[chunk_sub_full]"] kw
    by (simp add: no_faults_def merged_world_def empty_world_def existing_records_def fn)
  have 3: "\<exists>err w' l'. load ?m merged_world merged_list [chunk_sub_full] = Some (Some err, w', l')"
    using storage_failures_abort_except_open [of ?m merged_world merged_list "[chunk_sub_full]"] kw
    by (simp add: no_faults_def merged_world_def empty_world_def existing_records_def fn)
  have k: "kept_chunks merged_list None [chunk_sub_full] = [chunk_sub_full]"
    by (simp add: kept_chunks_def existing_records_def chunk_deleted_def recognized_def
        known_width_def example_defs)
  have t: "chunk_effect chunk_sub_full ({}, {}, {}) = ({}, {}, {hash32})"
    by (simp add: chunk_effect_cases Let_def example_defs hashlen_of_def PREFIX_32B_SZ_def
        entries_def upt_conv_Cons)
  have 4: "\<exists>w' l'. load ?o merged_world merged_list [chunk_sub_full] = Some (None, w', l') \<and>
      fs w' ''malware.dat'' = Some [Rec chunk_sub_full] \<and> live_tables l' = ({}, {}, {hash32}) \<and>
      Warn ''Error opening data file for reading, assuming empty'' \<in> set (logged w')"
    using storage_failures_abort_except_open [of ?o merged_world merged_list "[chunk_sub_full]"]
    by (simp add: no_faults_def k t fn)
  from 1 2 3 4 show ?thesis by blast
qed

text \<open>
  C8 as the claim states it fails: \<^verbatim>\<open>os.Open\<close> fails on a log that holds one record, the call
  returns no error, and afterwards the persisted log holds the record of the delta only
  and the prefix table is empty.
\<close>

theorem open_failure_is_taken_for_an_empty_log:
  "open_fails (no_faults\<lparr>open_fails := True\<rparr>) \<and>
   fs merged_world (FileName merged_list) = Some [Rec chunk_add_prefix] \<and>
   error_after (load (no_faults\<lparr>open_fails := True\<rparr>) merged_world merged_list [chunk_sub_full]) =
     Some None \<and>
   file_after (load (no_faults\<lparr>open_fails := True\<rparr>) merged_world merged_list [chunk_sub_full])
     (FileName merged_list) = Some [Rec chunk_sub_full] \<and>
   map_option Lookup
     (list_after (load (no_faults\<lparr>open_fails := True\<rparr>) merged_world merged_list [chunk_sub_full])) =
     Some {}"
  by (simp add: load_eval example_defs after_defs)

text \<open>
  C1 at an input where the code does otherwise. The log holds one ADD chunk and the list
  is the result of merging it; the delta is one SUB chunk of a full hash. When
  \<^verbatim>\<open>os.Rename\<close> fails, \<^verbatim>\<open>load\<close> returns the error after the old log has been removed and the
  three containers have been replaced: no persisted log is left and \<^verbatim>\<open>FullHashRequested\<close>
  has a new member. When \<^verbatim>\<open>os.Remove\<close> fails, the log is as it was and the containers have
  been replaced all the same.
\<close>

theorem rename_or_remove_failure_leaves_the_tables_replaced:
  "fs merged_world (FileName merged_list) = Some [Rec chunk_add_prefix] \<and>
   FullHashRequested merged_list = {} \<and>
   error_after (load (no_faults\<lparr>rename_fails := True\<rparr>) merged_world merged_list [chunk_sub_full]) =
     Some (Some RenameError) \<and>
   file_after (load (no_faults\<lparr>rename_fails := True\<rparr>) merged_world merged_list [chunk_sub_full])
     (FileName merged_list) = None \<and>
   map_option FullHashRequested
     (list_after (load (no_faults\<lparr>rename_fails := True\<rparr>) merged_world merged_list [chunk_sub_full])) =
     Some {hash32} \<and>
   error_after (load (no_faults\<lparr>remove_fails := True\<rparr>) merged_world merged_list [chunk_sub_full]) =
     Some (Some RemoveError) \<and>
   file_after (load (no_faults\<lparr>remove_fails := True\<rparr>) merged_world merged_list [chunk_sub_full])
     (FileName merged_list) = Some [Rec chunk_add_prefix] \<and>
   map_option FullHashRequested
     (list_after (load (no_faults\<lparr>remove_fails := True\<rparr>) merged_world merged_list [chunk_sub_full])) =
     Some {hash32}"
  by (simp add: load_eval example_defs after_defs)

text \<open>
  C2 at an input where the code does otherwise. A record of an undeclared chunk type is
  copied into the new log when it comes from the existing log, and is left out when it
  comes with the delta. A record of an undeclared prefix type makes \<^verbatim>\<open>load\<close> never return
  when it comes from the existing log, and is left out when it comes with the delta.
\<close>

theorem anomalous_chunk_is_copied_from_the_log_and_skipped_in_the_delta:
  "\<not> recognized chunk_odd_type \<and> \<not> recognized chunk_odd_prefix \<and>
   file_after (load no_faults (empty_world\<lparr>fs := [''malware.dat'' \<mapsto> [Rec chunk_odd_type]]\<rparr>)
                 new_list []) ''malware.dat'' = Some [Rec chunk_odd_type] \<and>
   file_after (load no_faults empty_world new_list [chunk_odd_type]) ''malware.dat'' = Some [] \<and>
   load no_faults (empty_world\<lparr>fs := [''malware.dat'' \<mapsto> [Rec chunk_odd_prefix]]\<rparr>) new_list [] =
     None \<and>
   file_after (load no_faults empty_world new_list [chunk_odd_prefix]) ''malware.dat'' = Some []"
  by (simp add: load_eval example_defs after_defs)

text \<open>
  C5 at an input where the code does otherwise. The log holds one record of an undeclared
  chunk type, number 8, and nothing is marked for deletion. \<^verbatim>\<open>load\<close> with an empty delta
  succeeds and the new log retains that record (the last \<^verbatim>\<open>else\<close> of the loop over the
  existing log falls through to \<^verbatim>\<open>Encode\<close>, as in C2), but \<^verbatim>\<open>ChunkRanges\<close> has no entry for
  its type and the two entries it has encode the empty set, while number 8 alone would be
  encoded as \<open>''8''\<close>: a record written to the new log has its number in no encoded set.
\<close>

theorem unrecognized_record_in_the_log_has_no_chunk_range:
  "error_after (load no_faults (empty_world\<lparr>fs := [''malware.dat'' \<mapsto> [Rec chunk_odd_type]]\<rparr>)
                  new_list []) = Some None \<and>
   file_after (load no_faults (empty_world\<lparr>fs := [''malware.dat'' \<mapsto> [Rec chunk_odd_type]]\<rparr>)
                 new_list []) ''malware.dat'' = Some [Rec chunk_odd_type] \<and>
   ChunkNumber chunk_odd_type = 8 \<and>
   ranges_after (load no_faults (empty_world\<lparr>fs := [''malware.dat'' \<mapsto> [Rec chunk_odd_type]]\<rparr>)
                   new_list []) (ChunkType chunk_odd_type) = None \<and>
   ranges_after (load no_faults (empty_world\<lparr>fs := [''malware.dat'' \<mapsto> [Rec chunk_odd_type]]\<rparr>)
                   new_list []) CHUNK_TYPE_ADD = Some [] \<and>
   ranges_after (load no_faults (empty_world\<lparr>fs := [''malware.dat'' \<mapsto> [Rec chunk_odd_type]]\<rparr>)
                   new_list []) CHUNK_TYPE_SUB = Some [] \<and>
   buildChunkRanges {8} = ''8''"
proof -
  have e: "buildChunkRanges {} = []" by code_simp
  have b: "buildChunkRanges {8} = ''8''" by code_simp
  show ?thesis
    by (simp add: load_eval example_defs after_defs e) (simp add: b)
qed

end
